theory Spec2Isabelle
  imports Main "HOL-Library.Sublist"
begin

section \<open>Python values, errors and strings\<close>

text \<open>
  The facade (\<^verbatim>\<open>src/postgres_manager.py\<close>) and the reader registry
  (\<^verbatim>\<open>src/readers.py\<close>) are embedded as pure functions. A Python exception is a value
  of \<open>py_error\<close> returned on the left of a sum. Text is \<open>string\<close>: a character is a
  code point below 256, and the character functions below (white space, \<open>lower\<close>,
  \<open>upper\<close>) are Python's on these code points.
\<close>

datatype pyval = VNone | VBool bool | VInt int | VStr string

text \<open>
  \<open>Error\<close> is \<^verbatim>\<open>psycopg2.Error\<close> (with its subclasses), carrying the message.
  The other constructors are Python's built-in exceptions of the same name; \<open>OSError\<close>
  stands for any failure of \<^verbatim>\<open>open\<close>/\<^verbatim>\<open>read\<close>.
\<close>

datatype py_error =
    Error string
  | AttributeError string
  | KeyError string
  | TypeError string
  | ValueError string
  | IndexError string
  | OSError string

type_synonym 'a result = "py_error + 'a"

text \<open>A tuple of values; a dict with string keys in insertion order.\<close>

type_synonym tuple = "pyval list"
type_synonym 'v dict = "(string \<times> 'v) list"

definition keys :: "'v dict \<Rightarrow> string list" where
  "keys d = map fst d"

definition dict_values :: "'v dict \<Rightarrow> 'v list" where
  "dict_values d = map snd d"

text \<open>\<^verbatim>\<open>d[k]\<close>: the value, or \<^verbatim>\<open>KeyError\<close>.\<close>

definition getitem :: "'v dict \<Rightarrow> string \<Rightarrow> 'v result" where
  "getitem d k = (case map_of d k of None \<Rightarrow> Inl (KeyError k) | Some v \<Rightarrow> Inr v)"

text \<open>\<^verbatim>\<open>sep.join(xs)\<close>\<close>

fun join :: "string \<Rightarrow> string list \<Rightarrow> string" where
  "join sep [] = []"
| "join sep [x] = x"
| "join sep (x # y # ys) = x @ sep @ join sep (y # ys)"

text \<open>\<^verbatim>\<open>s.split(c)\<close> for a one-character separator: never empty (so that the first
  case below does not occur), one more fragment than there are separators.\<close>

fun split_on :: "char \<Rightarrow> string \<Rightarrow> string list" where
  "split_on c [] = [[]]"
| "split_on c (x # xs) =
     (if x = c then [] # split_on c xs
      else (case split_on c xs of
              [] \<Rightarrow> [[x]]
            | fragment # fragments \<Rightarrow> (x # fragment) # fragments))"

text \<open>The characters that \<^verbatim>\<open>str.strip()\<close> removes, those of \<^verbatim>\<open>str.isspace\<close>: TAB, LF,
  VT, FF, CR, the four separators FS, GS, RS, US, the space, NEL (U+0085) and the
  no-break space (U+00A0).\<close>

definition is_space :: "char \<Rightarrow> bool" where
  "is_space c = (c \<in> set [CHR 0x09, CHR 0x0A, CHR 0x0B, CHR 0x0C, CHR 0x0D,
                           CHR 0x1C, CHR 0x1D, CHR 0x1E, CHR 0x1F, CHR 0x20,
                           CHR 0x85, CHR 0xA0])"

definition lstrip :: "string \<Rightarrow> string" where
  "lstrip s = dropWhile is_space s"

definition rstrip :: "string \<Rightarrow> string" where
  "rstrip s = rev (dropWhile is_space (rev s))"

definition strip :: "string \<Rightarrow> string" where
  "strip s = rstrip (lstrip s)"

text \<open>\<^verbatim>\<open>str.lower()\<close>: the letters A to Z and the capital letters of Latin-1 (U+00C0 to
  U+00DE without the multiplication sign U+00D7) move up by 32.\<close>

definition lower_char :: "char \<Rightarrow> char" where
  "lower_char c =
     (let n = (of_char c :: nat) in
      if (65 \<le> n \<and> n \<le> 90) \<or> (192 \<le> n \<and> n \<le> 222 \<and> n \<noteq> 215)
      then char_of (n + 32) else c)"

definition lower :: "string \<Rightarrow> string" where
  "lower s = map lower_char s"

text \<open>
  \<^verbatim>\<open>str.upper()\<close>: the letters a to z and the small letters of Latin-1 (U+00E0 to U+00FE
  without the division sign U+00F7) move down by 32, and the sharp s (U+00DF) becomes
  the two letters SS. The micro sign (U+00B5) and the y with diaeresis (U+00FF) have
  upper-case forms above 255 (U+039C, U+0178), which the character type does not hold;
  they stand for these forms, which like them are single characters outside ASCII.
\<close>

definition upper_char :: "char \<Rightarrow> char" where
  "upper_char c =
     (let n = (of_char c :: nat) in
      if (97 \<le> n \<and> n \<le> 122) \<or> (224 \<le> n \<and> n \<le> 254 \<and> n \<noteq> 247)
      then char_of (n - 32) else c)"

definition upper_chars :: "char \<Rightarrow> string" where
  "upper_chars c = (if c = CHR 0xDF then ''SS'' else [upper_char c])"

definition upper :: "string \<Rightarrow> string" where
  "upper s = concat (map upper_chars s)"

text \<open>\<^verbatim>\<open>s.startswith(p)\<close>\<close>

definition startswith :: "string \<Rightarrow> string \<Rightarrow> bool" where
  "startswith s p = (take (length p) s = p)"


section \<open>The reader registry (\<^verbatim>\<open>src/readers.py\<close>)\<close>

subsection \<open>\<^verbatim>\<open>SQLReader.read\<close>\<close>

text \<open>
  The comprehension
  \<^verbatim>\<open>[stmt.strip() for stmt in content.split(";") if stmt.strip()]\<close>
  of \<^verbatim>\<open>SQLReader.read\<close>.
\<close>

definition sql_statements :: "string \<Rightarrow> string list" where
  "sql_statements content =
     map strip (filter (\<lambda>stmt. strip stmt \<noteq> []) (split_on CHR '';'' content))"

text \<open>
  The file system is a parameter: \<open>fs source\<close> is what
  \<^verbatim>\<open>open(source, "r", encoding="utf-8")\<close> followed by \<^verbatim>\<open>f.read()\<close> gives, the content or
  the exception. \<^verbatim>\<open>SQLReader.read\<close> logs and re-raises any exception.
\<close>

type_synonym filesystem = "string \<Rightarrow> string result"

definition SQLReader_read :: "filesystem \<Rightarrow> string \<Rightarrow> string list result" where
  "SQLReader_read fs source =
     (case fs source of
        Inl e \<Rightarrow> Inl e
      | Inr content \<Rightarrow> Inr (sql_statements content))"

subsection \<open>\<^verbatim>\<open>ReaderFactory\<close>\<close>

datatype reader = CSVReader | JSONReader | SQLReader | PDFReader | ExcelReader

text \<open>The class attribute \<^verbatim>\<open>ReaderFactory._readers\<close>, in its insertion order.\<close>

definition readers :: "reader dict" where
  "readers =
     [(''.csv'', CSVReader), (''.json'', JSONReader), (''.sql'', SQLReader),
      (''.pdf'', PDFReader), (''.xlsx'', ExcelReader), (''.xls'', ExcelReader)]"

text \<open>\<^verbatim>\<open>repr\<close> of a string without quotes or escapes in it, and of a list of such.\<close>

definition repr_str :: "string \<Rightarrow> string" where
  "repr_str s = [CHR 0x27] @ s @ [CHR 0x27]"

definition repr_list :: "string list \<Rightarrow> string" where
  "repr_list xs = ''['' @ join '', '' (map repr_str xs) @ '']''"

definition unsupported_message :: "string \<Rightarrow> string" where
  "unsupported_message ext =
     ''Unsupported file format: '' @ ext @ ''. '' @
     ''Supported formats: '' @ repr_list (keys readers)"

text \<open>
  \<^verbatim>\<open>ReaderFactory.get_reader(file_path)\<close>. \<^verbatim>\<open>Path(file_path).suffix\<close> belongs to
  \<^verbatim>\<open>pathlib\<close> and is the parameter \<open>path_suffix\<close>. The \<^verbatim>\<open>ValueError\<close> raised here is what
  the specification calls \<^verbatim>\<open>UnsupportedFormatError\<close>.
\<close>

definition get_reader :: "(string \<Rightarrow> string) \<Rightarrow> string \<Rightarrow> reader result" where
  "get_reader path_suffix file_path =
     (let ext = lower (path_suffix file_path) in
      case map_of readers ext of
        None \<Rightarrow> Inl (ValueError (unsupported_message ext))
      | Some reader_class \<Rightarrow> Inr reader_class)"


section \<open>The database driver\<close>

text \<open>
  \<^verbatim>\<open>psycopg2\<close> is not part of the repository. A connection is modelled by what the facade
  can observe of it: whether it has been closed, and the sequence of calls made on it and
  on its cursors (\<open>trace\<close>). The database's answers are parameters (\<open>driver\<close>): the
  outcome of \<^verbatim>\<open>cursor.execute\<close> and \<^verbatim>\<open>cursor.executemany\<close> may depend on everything that
  happened on the connection before, and is either the message of a \<^verbatim>\<open>psycopg2.Error\<close>
  or the state the cursor is left in (exceptions of other classes, which the handlers
  of the facade do not catch, are not modelled). Opening a cursor, committing, rolling back and
  closing succeed on an open connection; on a closed one \<^verbatim>\<open>cursor()\<close> and \<^verbatim>\<open>rollback()\<close>
  raise \<^verbatim>\<open>InterfaceError\<close>, a \<^verbatim>\<open>psycopg2.Error\<close>.
\<close>

datatype event =
    CursorOpen
  | Execute string "tuple option"
  | ExecuteMany string "tuple list"
  | FetchAll
  | FetchOne
  | Commit
  | Rollback
  | CursorClose
  | ConnectionClose

record cursor_state =
  description :: "string list option"
  result_rows :: "tuple list option"
  rowcount :: int

record driver =
  connect_outcome :: "pyval dict \<Rightarrow> string option"
  execute_outcome :: "event list \<Rightarrow> string \<Rightarrow> tuple option \<Rightarrow> string + cursor_state"
  executemany_outcome :: "event list \<Rightarrow> string \<Rightarrow> tuple list \<Rightarrow> string + cursor_state"

record conn =
  closed :: bool
  trace :: "event list"

definition log_events :: "event list \<Rightarrow> conn \<Rightarrow> conn" where
  "log_events es c = c\<lparr>trace := trace c @ es\<rparr>"

definition closed_message :: string where
  "closed_message = ''connection already closed''"

definition no_results_message :: string where
  "no_results_message = ''no results to fetch''"

text \<open>The \<^verbatim>\<open>description\<close> of a cursor on which nothing has been executed yet
  (DB-API 2.0: the attribute is \<^verbatim>\<open>None\<close> until an operation has been executed).\<close>

definition fresh_cursor_description :: "string list option" where
  "fresh_cursor_description = None"

text \<open>Attribute access on \<^verbatim>\<open>None\<close>, as in \<^verbatim>\<open>self.connection.cursor()\<close> before
  \<^verbatim>\<open>connect\<close>.\<close>

definition none_has_no :: "string \<Rightarrow> py_error" where
  "none_has_no attr =
     AttributeError (repr_str ''NoneType'' @ '' object has no attribute '' @ repr_str attr)"

definition none_not_iterable :: py_error where
  "none_not_iterable = TypeError (repr_str ''NoneType'' @ '' object is not iterable'')"


section \<open>The facade (\<^verbatim>\<open>src/postgres_manager.py\<close>)\<close>

record manager =
  config :: "pyval dict"
  connection :: "conn option"

text \<open>\<^verbatim>\<open>PostgresManager.__init__\<close> with a dict.\<close>

definition init :: "pyval dict \<Rightarrow> manager" where
  "init cfg = \<lparr>config = cfg, connection = None\<rparr>"

text \<open>\<^verbatim>\<open>connect\<close>: a second call replaces the handle.\<close>

definition connect :: "driver \<Rightarrow> manager \<Rightarrow> manager \<times> bool result" where
  "connect d m =
     (case connect_outcome d (config m) of
        Some msg \<Rightarrow> (m, Inl (Error msg))
      | None \<Rightarrow> (m\<lparr>connection := Some \<lparr>closed = False, trace = []\<rparr>\<rparr>, Inr True))"

text \<open>
  \<^verbatim>\<open>disconnect\<close>: with a connection it closes it and returns \<^verbatim>\<open>True\<close>; the attribute
  keeps the closed handle. Without one the body falls off its end, and the call returns
  \<^verbatim>\<open>None\<close>.
\<close>

definition disconnect :: "manager \<Rightarrow> manager \<times> pyval" where
  "disconnect m =
     (case connection m of
        None \<Rightarrow> (m, VNone)
      | Some c \<Rightarrow>
          (m\<lparr>connection := Some (log_events [ConnectionClose] (c\<lparr>closed := True\<rparr>))\<rparr>,
           VBool True))"

subsection \<open>\<^verbatim>\<open>_execute_query\<close>\<close>

text \<open>What \<^verbatim>\<open>_execute_query\<close> returns: \<^verbatim>\<open>None\<close>, the list of \<^verbatim>\<open>fetchall()\<close>, or
  the row (or \<^verbatim>\<open>None\<close>) of \<^verbatim>\<open>fetchone()\<close>.\<close>

datatype fetched = NoResult | Rows "tuple list" | Row "tuple option"

definition set_conn :: "manager \<Rightarrow> conn \<Rightarrow> manager" where
  "set_conn m c = m\<lparr>connection := Some c\<rparr>"

text \<open>
  The handler \<^verbatim>\<open>except Error\<close> rolls back and re-raises, the \<^verbatim>\<open>finally\<close> closes the
  cursor. Without a connection there is nothing to roll back and no cursor. On a closed
  connection \<^verbatim>\<open>cursor()\<close> raises, and so does the handler's \<^verbatim>\<open>rollback()\<close>.
\<close>

definition execute_query ::
  "driver \<Rightarrow> manager \<Rightarrow> string \<Rightarrow> tuple option \<Rightarrow> bool \<Rightarrow> bool \<Rightarrow> bool
   \<Rightarrow> manager \<times> fetched result" where
  "execute_query d m query params fetch fetch_one commit =
     (case connection m of
        None \<Rightarrow> (m, Inl (Error ''Not connected to database''))
      | Some c \<Rightarrow>
          if closed c then (m, Inl (Error closed_message))
          else
            let c1 = log_events [CursorOpen] c in
            (case execute_outcome d (trace c1) query params of
               Inl msg \<Rightarrow>
                 (set_conn m (log_events [Execute query params, Rollback, CursorClose] c1),
                  Inl (Error msg))
             | Inr cur \<Rightarrow>
                 let c2 = log_events [Execute query params] c1 in
                 if fetch then
                   (case result_rows cur of
                      None \<Rightarrow>
                        (set_conn m (log_events [FetchAll, Rollback, CursorClose] c2),
                         Inl (Error no_results_message))
                    | Some rs \<Rightarrow>
                        (set_conn m (log_events [FetchAll, CursorClose] c2), Inr (Rows rs)))
                 else if fetch_one then
                   (case result_rows cur of
                      None \<Rightarrow>
                        (set_conn m (log_events [FetchOne, Rollback, CursorClose] c2),
                         Inl (Error no_results_message))
                    | Some rs \<Rightarrow>
                        (set_conn m (log_events [FetchOne, CursorClose] c2),
                         Inr (Row (case rs of [] \<Rightarrow> None | r # _ \<Rightarrow> Some r))))
                 else if commit then
                   (set_conn m (log_events [Commit, CursorClose] c2), Inr NoResult)
                 else
                   (set_conn m (log_events [CursorClose] c2), Inr NoResult)))"

subsection \<open>Table management\<close>

text \<open>\<^verbatim>\<open>primary_key and col_name == primary_key\<close>\<close>

definition is_primary_key :: "string option \<Rightarrow> string \<Rightarrow> bool" where
  "is_primary_key primary_key col_name =
     (case primary_key of None \<Rightarrow> False | Some pk \<Rightarrow> pk \<noteq> [] \<and> col_name = pk)"

definition create_table_sql :: "string \<Rightarrow> string dict \<Rightarrow> string option \<Rightarrow> bool \<Rightarrow> string" where
  "create_table_sql table_name columns primary_key if_not_exists =
     (let column_defs =
            map (\<lambda>(col_name, col_type).
                   col_name @ '' '' @ col_type @
                   (if is_primary_key primary_key col_name then '' PRIMARY KEY'' else []))
                columns;
          columns_str = join '', '' column_defs;
          if_not_exists_str = (if if_not_exists then ''IF NOT EXISTS'' else [])
      in ''CREATE TABLE '' @ if_not_exists_str @ '' '' @ table_name @
         '' ('' @ columns_str @ '')'')"

definition create_table ::
  "driver \<Rightarrow> manager \<Rightarrow> string \<Rightarrow> string dict \<Rightarrow> string option \<Rightarrow> bool
   \<Rightarrow> manager \<times> bool result" where
  "create_table d m table_name columns primary_key if_not_exists =
     (case execute_query d m (create_table_sql table_name columns primary_key if_not_exists)
             None False False True of
        (m', Inl e) \<Rightarrow> (m', Inl e)
      | (m', Inr _) \<Rightarrow> (m', Inr True))"

definition drop_table_sql :: "string \<Rightarrow> bool \<Rightarrow> string" where
  "drop_table_sql table_name if_exists =
     ''DROP TABLE '' @ (if if_exists then ''IF EXISTS'' else []) @ '' '' @ table_name"

definition drop_table :: "driver \<Rightarrow> manager \<Rightarrow> string \<Rightarrow> bool \<Rightarrow> manager \<times> bool result" where
  "drop_table d m table_name if_exists =
     (case execute_query d m (drop_table_sql table_name if_exists) None False False True of
        (m', Inl e) \<Rightarrow> (m', Inl e)
      | (m', Inr _) \<Rightarrow> (m', Inr True))"

subsection \<open>\<^verbatim>\<open>insert\<close> (here \<open>insert_row\<close>)\<close>

definition insert_sql :: "string \<Rightarrow> string list \<Rightarrow> string" where
  "insert_sql table_name columns =
     (let placeholders = join '', '' (replicate (length columns) ''%s'');
          cols_str = join '', '' columns
      in ''INSERT INTO '' @ table_name @ '' ('' @ cols_str @ '') VALUES ('' @
         placeholders @ '')'')"

text \<open>
  \<^verbatim>\<open>if return_id and result: return result[0]\<close>. With \<^verbatim>\<open>fetch=False\<close> the result is
  never a list of rows; \<^verbatim>\<open>None\<close> and the empty tuple are falsy.
\<close>

definition first_of_row :: "fetched \<Rightarrow> pyval option" where
  "first_of_row result = (case result of Row (Some (x # _)) \<Rightarrow> Some x | _ \<Rightarrow> None)"

definition insert_row ::
  "driver \<Rightarrow> manager \<Rightarrow> string \<Rightarrow> pyval dict \<Rightarrow> bool \<Rightarrow> manager \<times> pyval option result" where
  "insert_row d m table_name data return_id =
     (let query = insert_sql table_name (keys data) @
                  (if return_id then '' RETURNING id'' else [])
      in case execute_query d m query (Some (dict_values data)) False return_id True of
           (m', Inl e) \<Rightarrow> (m', Inl e)
         | (m', Inr result) \<Rightarrow>
             (m', Inr (if return_id then first_of_row result else None)))"

subsection \<open>\<^verbatim>\<open>insert_batch\<close>\<close>

text \<open>Evaluating a list of computations in order; the first exception wins.\<close>

fun collect :: "'a result list \<Rightarrow> 'a list result" where
  "collect [] = Inr []"
| "collect (Inl e # _) = Inl e"
| "collect (Inr x # rs) = (case collect rs of Inl e \<Rightarrow> Inl e | Inr xs \<Rightarrow> Inr (x # xs))"

text \<open>\<^verbatim>\<open>[tuple(row[col] for col in columns) for row in batch]\<close>\<close>

definition row_tuple :: "string list \<Rightarrow> pyval dict \<Rightarrow> tuple result" where
  "row_tuple columns row = collect (map (getitem row) columns)"

definition batch_values :: "string list \<Rightarrow> pyval dict list \<Rightarrow> tuple list result" where
  "batch_values columns batch = collect (map (row_tuple columns) batch)"

text \<open>
  The body of the loop for one \<open>batch\<close>: the column list from the batch's first row, a
  cursor, the value tuples, \<^verbatim>\<open>executemany\<close>, commit, close. Only \<^verbatim>\<open>psycopg2.Error\<close> is
  caught (logged and re-raised); nothing is rolled back and a failing batch leaves its
  cursor open. The result is \<^verbatim>\<open>len(batch)\<close>.
\<close>

definition insert_chunk ::
  "driver \<Rightarrow> string \<Rightarrow> manager \<Rightarrow> pyval dict list \<Rightarrow> manager \<times> nat result" where
  "insert_chunk d table_name m batch =
     (case batch of
        [] \<Rightarrow> (m, Inl (IndexError ''list index out of range''))
      | first # _ \<Rightarrow>
          let columns = keys first;
              query = insert_sql table_name columns
          in (case connection m of
                None \<Rightarrow> (m, Inl (none_has_no ''cursor''))
              | Some c \<Rightarrow>
                  if closed c then (m, Inl (Error closed_message))
                  else
                    let c1 = log_events [CursorOpen] c in
                    (case batch_values columns batch of
                       Inl e \<Rightarrow> (set_conn m c1, Inl e)
                     | Inr vals \<Rightarrow>
                         (case executemany_outcome d (trace c1) query vals of
                            Inl msg \<Rightarrow>
                              (set_conn m (log_events [ExecuteMany query vals] c1),
                               Inl (Error msg))
                          | Inr cur \<Rightarrow>
                              (set_conn m
                                 (log_events [ExecuteMany query vals, Commit, CursorClose] c1),
                               Inr (length batch))))))"

text \<open>
  \<^verbatim>\<open>for i in range(0, len(data_list), batch_size)\<close> with a positive step, from index
  \<open>i\<close> on.
\<close>

function insert_batch_loop ::
  "driver \<Rightarrow> string \<Rightarrow> pyval dict list \<Rightarrow> nat \<Rightarrow> nat \<Rightarrow> manager \<Rightarrow> nat
   \<Rightarrow> manager \<times> nat result" where
  "insert_batch_loop d table_name data_list batch_size i m total_inserted =
     (if i < length data_list \<and> 0 < batch_size then
        (case insert_chunk d table_name m (take batch_size (drop i data_list)) of
           (m', Inl e) \<Rightarrow> (m', Inl e)
         | (m', Inr n) \<Rightarrow>
             insert_batch_loop d table_name data_list batch_size (i + batch_size) m'
               (total_inserted + n))
      else (m, Inr total_inserted))"
  by pat_completeness auto
termination
  by (relation "measure (\<lambda>(d, table_name, data_list, batch_size, i, m, total_inserted).
                           length data_list - i)") auto

declare insert_batch_loop.simps [simp del]

text \<open>
  \<^verbatim>\<open>insert_batch\<close>; \<open>max_batch_size\<close> is \<^verbatim>\<open>MAX_BATCH_SIZE\<close> of
  \<^verbatim>\<open>config/settings.py\<close>, read from the environment. A step of zero makes \<^verbatim>\<open>range\<close>
  raise, a negative one makes it empty.
\<close>

definition insert_batch ::
  "int \<Rightarrow> driver \<Rightarrow> manager \<Rightarrow> string \<Rightarrow> pyval dict list \<Rightarrow> int option
   \<Rightarrow> manager \<times> nat result" where
  "insert_batch max_batch_size d m table_name data_list batch_size =
     (if data_list = [] then (m, Inr 0)
      else
        let bs = (case batch_size of None \<Rightarrow> max_batch_size | Some b \<Rightarrow> b) in
        if bs = 0 then (m, Inl (ValueError ''range() arg 3 must not be zero''))
        else if bs < 0 then (m, Inr 0)
        else insert_batch_loop d table_name data_list (nat bs) 0 m 0)"

subsection \<open>\<^verbatim>\<open>update\<close> and \<^verbatim>\<open>delete\<close>\<close>

text \<open>
  Both work on a cursor of their own, not through \<^verbatim>\<open>_execute_query\<close>: there is no check
  of the connection, and the handler \<^verbatim>\<open>except Error\<close> only logs and re-raises.
\<close>

definition update_sql :: "string \<Rightarrow> string list \<Rightarrow> string \<Rightarrow> string" where
  "update_sql table_name ks where_clause =
     (let set_clause = join '', '' (map (\<lambda>k. k @ '' = %s'') ks)
      in ''UPDATE '' @ table_name @ '' SET '' @ set_clause @ '' WHERE '' @ where_clause)"

definition update ::
  "driver \<Rightarrow> manager \<Rightarrow> string \<Rightarrow> pyval dict \<Rightarrow> string \<Rightarrow> tuple option
   \<Rightarrow> manager \<times> int result" where
  "update d m table_name data where_clause where_params =
     (let vals = dict_values data @ (case where_params of None \<Rightarrow> [] | Some ps \<Rightarrow> ps);
          query = update_sql table_name (keys data) where_clause
      in case connection m of
           None \<Rightarrow> (m, Inl (none_has_no ''cursor''))
         | Some c \<Rightarrow>
             if closed c then (m, Inl (Error closed_message))
             else
               let c1 = log_events [CursorOpen] c in
               (case execute_outcome d (trace c1) query (Some vals) of
                  Inl msg \<Rightarrow>
                    (set_conn m (log_events [Execute query (Some vals)] c1), Inl (Error msg))
                | Inr cur \<Rightarrow>
                    (set_conn m
                       (log_events [Execute query (Some vals), Commit, CursorClose] c1),
                     Inr (rowcount cur))))"

definition delete_sql :: "string \<Rightarrow> string \<Rightarrow> string" where
  "delete_sql table_name where_clause =
     ''DELETE FROM '' @ table_name @ '' WHERE '' @ where_clause"

definition delete ::
  "driver \<Rightarrow> manager \<Rightarrow> string \<Rightarrow> string \<Rightarrow> tuple option \<Rightarrow> manager \<times> int result" where
  "delete d m table_name where_clause where_params =
     (let query = delete_sql table_name where_clause
      in case connection m of
           None \<Rightarrow> (m, Inl (none_has_no ''cursor''))
         | Some c \<Rightarrow>
             if closed c then (m, Inl (Error closed_message))
             else
               let c1 = log_events [CursorOpen] c in
               (case execute_outcome d (trace c1) query where_params of
                  Inl msg \<Rightarrow>
                    (set_conn m (log_events [Execute query where_params] c1), Inl (Error msg))
                | Inr cur \<Rightarrow>
                    (set_conn m
                       (log_events [Execute query where_params, Commit, CursorClose] c1),
                     Inr (rowcount cur))))"

subsection \<open>\<^verbatim>\<open>query\<close>\<close>

text \<open>The list of tuples, or a \<^verbatim>\<open>pandas.DataFrame\<close> given by its column names and its
  rows.\<close>

datatype query_result = Tuples "tuple list" | DataFrame "string list" "tuple list"

text \<open>\<^verbatim>\<open>results or []\<close>, for a result that is \<^verbatim>\<open>None\<close> or a list of rows.\<close>

definition or_empty :: "fetched \<Rightarrow> tuple list" where
  "or_empty results = (case results of Rows rs \<Rightarrow> rs | _ \<Rightarrow> [])"

text \<open>
  With \<^verbatim>\<open>return_df\<close> and a non-empty result, the column names are read from
  \<^verbatim>\<open>self.connection.cursor().description\<close>: the description of a new cursor, not of the
  one that executed the statement (which \<^verbatim>\<open>_execute_query\<close> has closed). The new cursor is
  never closed. \<^verbatim>\<open>TypeError\<close> is not a \<^verbatim>\<open>psycopg2.Error\<close> and passes the handler.
\<close>

definition query ::
  "driver \<Rightarrow> manager \<Rightarrow> string \<Rightarrow> tuple option \<Rightarrow> bool \<Rightarrow> manager \<times> query_result result" where
  "query d m query_str params return_df =
     (case execute_query d m query_str params True False False of
        (m', Inl e) \<Rightarrow> (m', Inl e)
      | (m', Inr results) \<Rightarrow>
          if return_df then
            (if or_empty results \<noteq> [] then
               (case connection m' of
                  None \<Rightarrow> (m', Inl (none_has_no ''cursor''))
                | Some c \<Rightarrow>
                    if closed c then (m', Inl (Error closed_message))
                    else
                      let m'' = set_conn m' (log_events [CursorOpen] c) in
                      (case fresh_cursor_description of
                         None \<Rightarrow> (m'', Inl none_not_iterable)
                       | Some columns \<Rightarrow> (m'', Inr (DataFrame columns (or_empty results)))))
             else (m', Inr (DataFrame [] (or_empty results))))
          else (m', Inr (Tuples (or_empty results))))"

subsection \<open>\<^verbatim>\<open>execute_from_sql_file\<close>\<close>

definition is_select :: "string \<Rightarrow> bool" where
  "is_select statement = startswith (upper statement) ''SELECT''"

text \<open>The loop over the statements; \<open>results\<close> is the variable of that name.\<close>

fun run_statements ::
  "driver \<Rightarrow> manager \<Rightarrow> string list \<Rightarrow> fetched \<Rightarrow> manager \<times> fetched result" where
  "run_statements d m [] results = (m, Inr results)"
| "run_statements d m (statement # rest) results =
     (if is_select statement then
        (case execute_query d m statement None True False False of
           (m', Inl e) \<Rightarrow> (m', Inl e)
         | (m', Inr r) \<Rightarrow> run_statements d m' rest r)
      else
        (case execute_query d m statement None False False True of
           (m', Inl e) \<Rightarrow> (m', Inl e)
         | (m', Inr _) \<Rightarrow> run_statements d m' rest results))"

definition execute_from_sql_file ::
  "filesystem \<Rightarrow> driver \<Rightarrow> manager \<Rightarrow> string \<Rightarrow> manager \<times> tuple list result" where
  "execute_from_sql_file fs d m file_path =
     (case SQLReader_read fs file_path of
        Inl e \<Rightarrow> (m, Inl e)
      | Inr statements \<Rightarrow>
          (case run_statements d m statements NoResult of
             (m', Inl e) \<Rightarrow> (m', Inl e)
           | (m', Inr results) \<Rightarrow> (m', Inr (or_empty results))))"

subsection \<open>Catalog queries\<close>

definition nl :: string where
  "nl = [CHR 0x0A]"

definition table_exists_sql :: string where
  "table_exists_sql =
     nl @ ''                SELECT EXISTS ('' @
     nl @ ''                    SELECT 1 FROM information_schema.tables '' @
     nl @ ''                    WHERE table_name = %s'' @
     nl @ ''                )'' @
     nl @ ''            ''"

text \<open>\<^verbatim>\<open>result[0] if result else False\<close>\<close>

definition table_exists :: "driver \<Rightarrow> manager \<Rightarrow> string \<Rightarrow> manager \<times> pyval result" where
  "table_exists d m table_name =
     (case execute_query d m table_exists_sql (Some [VStr table_name]) False True False of
        (m', Inl e) \<Rightarrow> (m', Inl e)
      | (m', Inr result) \<Rightarrow>
          (m', Inr (case first_of_row result of None \<Rightarrow> VBool False | Some x \<Rightarrow> x)))"

definition table_columns_sql :: string where
  "table_columns_sql =
     nl @ ''                SELECT column_name, data_type, is_nullable'' @
     nl @ ''                FROM information_schema.columns'' @
     nl @ ''                WHERE table_name = %s'' @
     nl @ ''                ORDER BY ordinal_position'' @
     nl @ ''            ''"

text \<open>The dict built for one row; \<^verbatim>\<open>row[i]\<close> raises on a row that is too short.\<close>

definition column_info :: "tuple \<Rightarrow> pyval dict result" where
  "column_info row =
     (if length row < 3 then Inl (IndexError ''tuple index out of range'')
      else Inr [(''name'', row ! 0), (''type'', row ! 1),
                (''nullable'', VBool (row ! 2 = VStr ''YES''))])"

definition get_table_columns ::
  "driver \<Rightarrow> manager \<Rightarrow> string \<Rightarrow> manager \<times> pyval dict list result" where
  "get_table_columns d m table_name =
     (case execute_query d m table_columns_sql (Some [VStr table_name]) True False False of
        (m', Inl e) \<Rightarrow> (m', Inl e)
      | (m', Inr results) \<Rightarrow> (m', collect (map column_info (or_empty results))))"

section \<open>The words of the specification\<close>

text \<open>
  The definitions of this section are not taken from the source: they say what the
  specification expects, and the theorems compare the facade with them.
\<close>

text \<open>The statement splitter: split on \<open>;\<close>, strip each
  fragment, drop the fragments that are empty after stripping.\<close>

definition spec_split_statements :: "string \<Rightarrow> string list" where
  "spec_split_statements content =
     filter (\<lambda>fragment. fragment \<noteq> []) (map strip (split_on CHR '';'' content))"

text \<open>
  A case-insensitive literal prefix match with \<^verbatim>\<open>SELECT\<close>: the statement has at least six
  characters, and its first six are the letters of \<^verbatim>\<open>SELECT\<close>, each in upper or in lower
  case. Nothing is skipped before them, and nothing is asked of what follows.
\<close>

definition either_case :: "char \<Rightarrow> char \<Rightarrow> char \<Rightarrow> bool" where
  "either_case u l c = (c = u \<or> c = l)"

definition select_prefixed :: "string \<Rightarrow> bool" where
  "select_prefixed statement =
     (case statement of
        c1 # c2 # c3 # c4 # c5 # c6 # _ \<Rightarrow>
          either_case CHR ''S'' CHR ''s'' c1 \<and> either_case CHR ''E'' CHR ''e'' c2 \<and>
          either_case CHR ''L'' CHR ''l'' c3 \<and> either_case CHR ''E'' CHR ''e'' c4 \<and>
          either_case CHR ''C'' CHR ''c'' c5 \<and> either_case CHR ''T'' CHR ''t'' c6
      | _ \<Rightarrow> False)"

text \<open>What running a SQL file does on the connection for one statement that the database
  accepts: a \<^verbatim>\<open>SELECT\<close>-prefixed statement is fetched, any other is committed.\<close>

definition statement_events :: "string \<Rightarrow> event list" where
  "statement_events statement =
     (if select_prefixed statement
      then [CursorOpen, Execute statement None, FetchAll, CursorClose]
      else [CursorOpen, Execute statement None, Commit, CursorClose])"

text \<open>The consecutive chunks of \<open>n\<close> elements of a list; the last one may be shorter.\<close>

function chunks :: "nat \<Rightarrow> 'a list \<Rightarrow> 'a list list" where
  "chunks n xs = (if xs = [] \<or> n = 0 then [] else take n xs # chunks n (drop n xs))"
  by pat_completeness auto
termination
  by (relation "measure (\<lambda>(n, xs). length xs)") auto

declare chunks.simps [simp del]

text \<open>Every row of the chunk has the keys of the chunk's first row (and maybe more).\<close>

definition chunk_covered :: "pyval dict list \<Rightarrow> bool" where
  "chunk_covered chunk =
     list_all (\<lambda>row. list_all (\<lambda>k. k \<in> set (keys row)) (keys (hd chunk))) chunk"

text \<open>A row reduced to the values of the given columns, in their order.\<close>

definition project :: "string list \<Rightarrow> pyval dict \<Rightarrow> tuple" where
  "project columns row = map (\<lambda>col. the (map_of row col)) columns"

text \<open>One execution call for a chunk, with the columns of the chunk's first row, followed
  by a commit.\<close>

definition chunk_events :: "string \<Rightarrow> pyval dict list \<Rightarrow> event list" where
  "chunk_events table_name chunk =
     [CursorOpen,
      ExecuteMany (insert_sql table_name (keys (hd chunk)))
        (map (project (keys (hd chunk))) chunk),
      Commit, CursorClose]"

definition is_execution :: "event \<Rightarrow> bool" where
  "is_execution e = (case e of Execute _ _ \<Rightarrow> True | ExecuteMany _ _ \<Rightarrow> True | _ \<Rightarrow> False)"


section \<open>Example data\<close>

text \<open>Concrete inputs at which the theorems below are instantiated.\<close>

definition example_sql :: string where
  "example_sql = ''SELECT * FROM users; ;  SELECT COUNT(*) FROM orders ;''"

text \<open>A text with a no-break space and a NEL around its separators.\<close>

definition example_latin1_sql :: string where
  "example_latin1_sql = ''SELECT 1'' @ [CHR 0xA0] @ '';'' @ [CHR 0x85] @ '';SELECT 2''"

definition example_fs :: filesystem where
  "example_fs path =
     (if path = ''test.sql'' then Inr example_sql
      else if path = ''latin1.sql'' then Inr example_latin1_sql
      else Inl (OSError path))"


definition example_cursor :: "tuple list option \<Rightarrow> int \<Rightarrow> cursor_state" where
  "example_cursor rs n =
     \<lparr>description = (case rs of None \<Rightarrow> None | Some _ \<Rightarrow> Some [''a'', ''b'']),
      result_rows = rs, rowcount = n\<rparr>"

text \<open>A database that answers a few statements with rows, accepts every other statement
  without a result set, and accepts every batch.\<close>

definition example_driver :: driver where
  "example_driver =
     \<lparr>connect_outcome = (\<lambda>cfg. None),
      execute_outcome = (\<lambda>history statement params.
        if statement = ''SELECT 1'' then Inr (example_cursor (Some [[VInt 1]]) 1)
        else if statement = ''SELECT 2'' then Inr (example_cursor (Some [[VInt 2]]) 1)
        else if statement = ''SELECT a, b FROM t''
          then Inr (example_cursor (Some [[VInt 1, VInt 2], [VInt 3, VInt 4]]) 2)
        else if statement = ''INSERT INTO users (name) VALUES (%s) RETURNING id''
          then Inr (example_cursor (Some [[VInt 7]]) 1)
        else Inr (example_cursor None 1)),
      executemany_outcome = (\<lambda>history statement rows.
        Inr (example_cursor None (int (length rows))))\<rparr>"

text \<open>A database that rejects every statement.\<close>

definition failing_driver :: driver where
  "failing_driver =
     \<lparr>connect_outcome = (\<lambda>cfg. None),
      execute_outcome = (\<lambda>history statement params. Inl ''relation does not exist''),
      executemany_outcome = (\<lambda>history statement rows. Inl ''relation does not exist'')\<rparr>"

text \<open>A facade that was never connected, and one right after \<^verbatim>\<open>connect\<close>.\<close>

definition fresh :: manager where
  "fresh = init []"

definition connected :: manager where
  "connected = \<lparr>config = [], connection = Some \<lparr>closed = False, trace = []\<rparr>\<rparr>"


definition example_scripts :: filesystem where
  "example_scripts path =
     (if path = ''two.sql'' then Inr ''SELECT 1; SELECT 2;''
      else if path = ''create.sql'' then Inr ''CREATE TABLE t(x INT); SELECT 1;''
      else if path = ''mixed.sql''
        then Inr ''select 1; INSERT INTO t VALUES (1); SeLeCt 2; (SELECT 3)''
      else Inl (OSError path))"

text \<open>A database that answers two statements written in lower and in mixed case with
  rows, and accepts every other statement without a result set.\<close>

definition mixed_case_driver :: driver where
  "mixed_case_driver =
     \<lparr>connect_outcome = (\<lambda>cfg. None),
      execute_outcome = (\<lambda>history statement params.
        if statement = ''select 1'' then Inr (example_cursor (Some [[VInt 1]]) 1)
        else if statement = ''SeLeCt 2'' then Inr (example_cursor (Some [[VInt 2]]) 1)
        else Inr (example_cursor None 1)),
      executemany_outcome = (\<lambda>history statement rows.
        Inr (example_cursor None (int (length rows))))\<rparr>"



text \<open>Rows with the same two keys (not all in the same order); rows whose keys differ
  from one to the next; a second row that lacks a key of the first; a second row with a
  key that the first does not have.\<close>

definition example_rows :: "pyval dict list" where
  "example_rows =
     [[(''name'', VStr ''John''), (''email'', VStr ''john@example.com'')],
      [(''email'', VStr ''jane@example.com''), (''name'', VStr ''Jane'')],
      [(''name'', VStr ''Joe''), (''email'', VStr ''joe@example.com'')]]"

definition rows_changing_keys :: "pyval dict list" where
  "rows_changing_keys = [[(''a'', VInt 1)], [(''b'', VInt 2), (''c'', VInt 3)]]"

definition rows_missing_key :: "pyval dict list" where
  "rows_missing_key = [[(''a'', VInt 1), (''b'', VInt 2)], [(''a'', VInt 3)]]"

definition rows_extra_key :: "pyval dict list" where
  "rows_extra_key = [[(''a'', VInt 1)], [(''z'', VInt 9), (''a'', VInt 2)]]"


section \<open>Properties of the string functions\<close>

lemma split_on_not_Nil: "split_on c s \<noteq> []"
  by (induction s) (auto split: list.splits)

lemma join_Cons: "ys \<noteq> [] \<Longrightarrow> join sep (x # ys) = x @ sep @ join sep ys"
  by (cases ys) auto

lemma join_split_on: "join [c] (split_on c s) = s"
proof (induction s)
  case Nil
  show ?case by simp
next
  case (Cons x xs)
  obtain f fs where r: "split_on c xs = f # fs"
    using split_on_not_Nil [of c xs] by (cases "split_on c xs") auto
  show ?case
  proof (cases "x = c")
    case True
    with Cons show ?thesis by (simp add: join_Cons split_on_not_Nil)
  next
    case False
    with Cons r show ?thesis by (cases fs) auto
  qed
qed

lemma split_on_free: "f \<in> set (split_on c s) \<Longrightarrow> c \<notin> set f"
proof (induction s arbitrary: f)
  case Nil
  then show ?case by simp
next
  case (Cons x xs)
  obtain g gs where r: "split_on c xs = g # gs"
    using split_on_not_Nil [of c xs] by (cases "split_on c xs") auto
  show ?case
  proof (cases "x = c")
    case True
    with Cons show ?thesis by auto
  next
    case False
    with Cons.prems r have "f = x # g \<or> f \<in> set gs" by auto
    then show ?thesis
    proof
      assume "f = x # g"
      moreover have "c \<notin> set g" using Cons.IH [of g] r by simp
      ultimately show ?thesis using False by auto
    next
      assume "f \<in> set gs"
      then show ?thesis using Cons.IH [of f] r by simp
    qed
  qed
qed

lemma length_split_on: "length (split_on c s) = Suc (length (filter (\<lambda>x. x = c) s))"
proof (induction s)
  case Nil
  show ?case by simp
next
  case (Cons x xs)
  then show ?case using split_on_not_Nil [of c xs] by (cases "split_on c xs") auto
qed

lemma map_filter_swap:
  "map f (filter (\<lambda>x. P (f x)) xs) = filter P (map f xs)"
  by (induction xs) auto

lemma lstrip_no_leading_space: "lstrip s \<noteq> [] \<Longrightarrow> \<not> is_space (hd (lstrip s))"
  unfolding lstrip_def by (rule hd_dropWhile)

lemma rstrip_no_trailing_space: "rstrip s \<noteq> [] \<Longrightarrow> \<not> is_space (last (rstrip s))"
  unfolding rstrip_def
  by (simp add: last_rev hd_dropWhile)

lemma rstrip_hd: "rstrip s \<noteq> [] \<Longrightarrow> hd (rstrip s) = hd s"
proof -
  assume ne: "rstrip s \<noteq> []"
  have "s = rev (takeWhile is_space (rev s) @ dropWhile is_space (rev s))"
    by simp
  then have "s = rstrip s @ rev (takeWhile is_space (rev s))"
    unfolding rstrip_def by (simp only: rev_append)
  then have "hd s = hd (rstrip s @ rev (takeWhile is_space (rev s)))" by simp
  with ne show ?thesis by simp
qed

lemma strip_ends:
  "strip s \<noteq> [] \<Longrightarrow> \<not> is_space (hd (strip s)) \<and> \<not> is_space (last (strip s))"
proof -
  assume ne: "strip s \<noteq> []"
  then have l: "lstrip s \<noteq> []" by (auto simp: strip_def rstrip_def)
  have "hd (strip s) = hd (lstrip s)"
    using ne unfolding strip_def by (rule rstrip_hd)
  with l lstrip_no_leading_space [of s] rstrip_no_trailing_space [of "lstrip s"] ne
  show ?thesis by (simp add: strip_def)
qed

lemma set_strip: "set (strip s) \<subseteq> set s"
proof -
  have "set (dropWhile is_space (rev (dropWhile is_space s))) \<subseteq> set (rev (dropWhile is_space s))"
    by (rule set_dropWhileD [THEN subsetI])
  moreover have "set (dropWhile is_space s) \<subseteq> set s"
    by (rule set_dropWhileD [THEN subsetI])
  ultimately show ?thesis by (auto simp: strip_def lstrip_def rstrip_def)
qed


section \<open>The SQL statement splitter\<close>

text \<open>
  \<open>split_on\<close> is characterised without reference to its recursion: the fragments contain
  no separator, and joining them with the separator gives the text back.
\<close>

text \<open>
  Claim C8. For every content of the file, \<^verbatim>\<open>SQLReader.read\<close> returns exactly the
  fragments obtained by splitting the content on \<open>;\<close>, each stripped of surrounding white
  space, those empty after stripping dropped, in their original order. The fragments of
  the split are free of \<open>;\<close> and give the content back when joined with \<open>;\<close>; every
  returned statement is non-empty and neither starts nor ends with white space. White
  space is what \<^verbatim>\<open>str.strip()\<close> removes among the code points below 256, the no-break
  space and NEL included.
\<close>

theorem SQLReader_read_splits:
  assumes "fs source = Inr content"
  shows "SQLReader_read fs source = Inr (spec_split_statements content)
       \<and> join '';'' (split_on CHR '';'' content) = content
       \<and> list_all (\<lambda>fragment. CHR '';'' \<notin> set fragment) (split_on CHR '';'' content)
       \<and> list_all (\<lambda>stmt. stmt \<noteq> [] \<and> \<not> is_space (hd stmt) \<and> \<not> is_space (last stmt)
                            \<and> CHR '';'' \<notin> set stmt)
            (spec_split_statements content)"
proof -
  have "sql_statements content = spec_split_statements content"
    unfolding sql_statements_def spec_split_statements_def by (rule map_filter_swap)
  then have a: "SQLReader_read fs source = Inr (spec_split_statements content)"
    using assms by (simp add: SQLReader_read_def)
  have b: "join '';'' (split_on CHR '';'' content) = content"
    by (rule join_split_on)
  have c: "list_all (\<lambda>fragment. CHR '';'' \<notin> set fragment) (split_on CHR '';'' content)"
    unfolding list_all_iff using split_on_free by blast
  have d: "stmt \<noteq> [] \<and> \<not> is_space (hd stmt) \<and> \<not> is_space (last stmt) \<and> CHR '';'' \<notin> set stmt"
    if "stmt \<in> set (spec_split_statements content)" for stmt
  proof -
    from that obtain fragment where f: "fragment \<in> set (split_on CHR '';'' content)"
      and s: "stmt = strip fragment" and ne: "stmt \<noteq> []"
      by (auto simp: spec_split_statements_def)
    have "CHR '';'' \<notin> set fragment" using f by (rule split_on_free)
    then have "CHR '';'' \<notin> set stmt" using set_strip [of fragment] s by blast
    with strip_ends [of fragment] s ne show ?thesis by simp
  qed
  from a b c d show ?thesis unfolding list_all_iff by blast
qed

theorem SQLReader_read_splits_witness:
  "SQLReader_read example_fs ''test.sql''
     = Inr [''SELECT * FROM users'', ''SELECT COUNT(*) FROM orders'']
   \<and> SQLReader_read example_fs ''latin1.sql'' = Inr [''SELECT 1'', ''SELECT 2'']"
proof -
  have h: "example_fs ''test.sql'' = Inr example_sql"
    and h': "example_fs ''latin1.sql'' = Inr example_latin1_sql"
    by (simp_all add: example_fs_def)
  have e: "spec_split_statements example_sql
          = [''SELECT * FROM users'', ''SELECT COUNT(*) FROM orders'']"
    and e': "spec_split_statements example_latin1_sql = [''SELECT 1'', ''SELECT 2'']"
    by code_simp+
  note t = SQLReader_read_splits [of example_fs "''test.sql''" example_sql]
  note t' = SQLReader_read_splits [of example_fs "''latin1.sql''" example_latin1_sql]
  from t [OF h]
  have "SQLReader_read example_fs ''test.sql'' = Inr (spec_split_statements example_sql)"
    by (rule conjunct1)
  moreover from t' [OF h']
  have "SQLReader_read example_fs ''latin1.sql''
          = Inr (spec_split_statements example_latin1_sql)"
    by (rule conjunct1)
  ultimately show ?thesis by (simp only: e e')
qed

text \<open>The code's own comprehension on the same text: the no-break space is stripped from
  the first statement, and the fragment that consists of a NEL is dropped.\<close>

lemma sql_statements_latin1_spaces:
  "sql_statements example_latin1_sql = [''SELECT 1'', ''SELECT 2'']"
  by code_simp


section \<open>The reader registry\<close>

lemma sublist_in_context: "sublist x y \<Longrightarrow> sublist x (p @ y @ s)"
proof -
  assume "sublist x y"
  then obtain a b where "y = a @ x @ b" by (auto simp: sublist_def)
  then have "p @ y @ s = (p @ a) @ x @ (b @ s)" by simp
  then show ?thesis unfolding sublist_def by blast
qed

lemma sublist_join: "x \<in> set xs \<Longrightarrow> sublist x (join sep xs)"
proof (induction sep xs rule: join.induct)
  case (1 sep)
  then show ?case by simp
next
  case (2 sep y)
  then show ?case by simp
next
  case (3 sep y z zs)
  show ?case
  proof (cases "x = y")
    case True
    then show ?thesis by (simp add: sublist_append_rightI)
  next
    case False
    with 3 have "sublist x (join sep (z # zs))" by simp
    then have "sublist x ((y @ sep) @ join sep (z # zs) @ [])"
      by (rule sublist_in_context)
    then show ?thesis by simp
  qed
qed

lemma sublist_repr_list: "x \<in> set xs \<Longrightarrow> sublist x (repr_list xs)"
proof -
  assume "x \<in> set xs"
  then have "repr_str x \<in> set (map repr_str xs)" by simp
  then have "sublist (repr_str x) (join '', '' (map repr_str xs))"
    by (rule sublist_join)
  moreover have "sublist x (repr_str x)"
    unfolding repr_str_def by (rule sublist_appendI)
  ultimately have "sublist x (join '', '' (map repr_str xs))"
    by (rule sublist_order.order_trans [rotated])
  then show ?thesis
    unfolding repr_list_def by (rule sublist_in_context)
qed

lemma message_lists_supported:
  "x \<in> set (keys readers) \<Longrightarrow> sublist x (unsupported_message ext)"
proof -
  assume "x \<in> set (keys readers)"
  then have "sublist x (repr_list (keys readers))" by (rule sublist_repr_list)
  then have "sublist x ((''Unsupported file format: '' @ ext @ ''. '' @ ''Supported formats: '')
                        @ repr_list (keys readers) @ [])"
    by (rule sublist_in_context)
  then show ?thesis by (simp add: unsupported_message_def)
qed

lemma keys_readers: "keys readers = [''.csv'', ''.json'', ''.sql'', ''.pdf'', ''.xlsx'', ''.xls'']"
  by (simp add: keys_def readers_def)

lemma map_of_readers_None: "ext \<notin> set (keys readers) \<Longrightarrow> map_of readers ext = None"
  by (simp add: keys_def map_of_eq_None_iff)

text \<open>
  Claim C7. For an extension (the lower-cased suffix of the path) outside the supported
  set, \<^verbatim>\<open>get_reader\<close> fails with the \<^verbatim>\<open>ValueError\<close> that the specification calls
  \<^verbatim>\<open>UnsupportedFormatError\<close>, and each supported extension occurs in its message; for
  each of \<open>.csv\<close>, \<open>.json\<close>, \<open>.sql\<close>, \<open>.pdf\<close>, \<open>.xlsx\<close>, \<open>.xls\<close> it returns the
  corresponding reader.
\<close>

theorem get_reader_dispatch:
  "(lower (path_suffix p) \<notin> set [''.csv'', ''.json'', ''.sql'', ''.pdf'', ''.xlsx'', ''.xls''] \<longrightarrow>
           get_reader path_suffix p = Inl (ValueError (unsupported_message (lower (path_suffix p)))) \<and>
           list_all (\<lambda>e. sublist e (unsupported_message (lower (path_suffix p))))
             [''.csv'', ''.json'', ''.sql'', ''.pdf'', ''.xlsx'', ''.xls''])
       \<and> (lower (path_suffix p) = ''.csv'' \<longrightarrow> get_reader path_suffix p = Inr CSVReader)
       \<and> (lower (path_suffix p) = ''.json'' \<longrightarrow> get_reader path_suffix p = Inr JSONReader)
       \<and> (lower (path_suffix p) = ''.sql'' \<longrightarrow> get_reader path_suffix p = Inr SQLReader)
       \<and> (lower (path_suffix p) = ''.pdf'' \<longrightarrow> get_reader path_suffix p = Inr PDFReader)
       \<and> (lower (path_suffix p) = ''.xlsx'' \<longrightarrow> get_reader path_suffix p = Inr ExcelReader)
       \<and> (lower (path_suffix p) = ''.xls'' \<longrightarrow> get_reader path_suffix p = Inr ExcelReader)"
proof -
  have unknown: "get_reader path_suffix p = Inl (ValueError (unsupported_message (lower (path_suffix p))))"
    if "lower (path_suffix p) \<notin> set (keys readers)"
    using map_of_readers_None [OF that] by (simp add: get_reader_def)
  have listed: "list_all (\<lambda>e. sublist e (unsupported_message (lower (path_suffix p)))) (keys readers)"
    unfolding list_all_iff using message_lists_supported by blast
  have known: "get_reader path_suffix p = Inr r" if "map_of readers (lower (path_suffix p)) = Some r" for r
    using that by (simp add: get_reader_def)
  show ?thesis
    using unknown listed known [of CSVReader] known [of JSONReader] known [of SQLReader]
      known [of PDFReader] known [of ExcelReader]
    unfolding keys_readers
    by (simp add: readers_def)
qed


theorem get_reader_dispatch_witness:
  "get_reader (\<lambda>p. drop 4 p) ''test.TXT'' = Inl (ValueError (unsupported_message ''.txt''))
   \<and> list_all (\<lambda>e. sublist e (unsupported_message ''.txt''))
        [''.csv'', ''.json'', ''.sql'', ''.pdf'', ''.xlsx'', ''.xls'']
   \<and> get_reader (\<lambda>p. drop 4 p) ''test.csv'' = Inr CSVReader
   \<and> get_reader (\<lambda>p. drop 4 p) ''data.JSON'' = Inr JSONReader
   \<and> get_reader (\<lambda>p. drop 4 p) ''init.sql'' = Inr SQLReader
   \<and> get_reader (\<lambda>p. drop 4 p) ''book.Pdf'' = Inr PDFReader
   \<and> get_reader (\<lambda>p. drop 4 p) ''work.xlsx'' = Inr ExcelReader
   \<and> get_reader (\<lambda>p. drop 4 p) ''work.xls'' = Inr ExcelReader"
proof -
  have l: "lower ''.TXT'' = ''.txt''" "lower ''.csv'' = ''.csv''" "lower ''.JSON'' = ''.json''"
    "lower ''.sql'' = ''.sql''" "lower ''.Pdf'' = ''.pdf''" "lower ''.xlsx'' = ''.xlsx''"
    "lower ''.xls'' = ''.xls''"
    by code_simp+
  show ?thesis
    using get_reader_dispatch [of "\<lambda>p. drop 4 p" "''test.TXT''"]
      get_reader_dispatch [of "\<lambda>p. drop 4 p" "''test.csv''"]
      get_reader_dispatch [of "\<lambda>p. drop 4 p" "''data.JSON''"]
      get_reader_dispatch [of "\<lambda>p. drop 4 p" "''init.sql''"]
      get_reader_dispatch [of "\<lambda>p. drop 4 p" "''book.Pdf''"]
      get_reader_dispatch [of "\<lambda>p. drop 4 p" "''work.xlsx''"]
      get_reader_dispatch [of "\<lambda>p. drop 4 p" "''work.xls''"]
    by (simp add: l)
qed

section \<open>Connection lifecycle\<close>

lemma connect_fresh: "connect example_driver fresh = (connected, Inr True)"
  by (simp add: connect_def example_driver_def fresh_def init_def connected_def)

text \<open>What \<^verbatim>\<open>disconnect\<close> does, with and without a connection.\<close>

lemma disconnect_cases:
  "(connection m = None \<longrightarrow> disconnect m = (m, VNone))
   \<and> (\<forall>c. connection m = Some c \<longrightarrow>
          disconnect m =
            (m\<lparr>connection := Some (c\<lparr>closed := True, trace := trace c @ [ConnectionClose]\<rparr>)\<rparr>,
             VBool True))"
proof (cases "connection m")
  case None
  then show ?thesis by (simp add: disconnect_def)
next
  case (Some c)
  have "log_events [ConnectionClose] (c\<lparr>closed := True\<rparr>)
          = c\<lparr>closed := True, trace := trace c @ [ConnectionClose]\<rparr>"
    by (simp add: log_events_def)
  with Some show ?thesis by (simp add: disconnect_def)
qed

text \<open>
  Claim C6 at concrete inputs. On a facade that holds an open connection, \<^verbatim>\<open>disconnect\<close>
  closes it and returns \<^verbatim>\<open>True\<close>. On a facade that was never connected it changes
  nothing, but what it returns is \<^verbatim>\<open>None\<close>: the method, annotated \<^verbatim>\<open>-> bool\<close>, has no
  \<^verbatim>\<open>return\<close> on that path, and the value is not the boolean \<^verbatim>\<open>False\<close>.
\<close>

theorem disconnect_never_connected_returns_None:
  "disconnect connected =
     (\<lparr>config = [], connection = Some \<lparr>closed = True, trace = [ConnectionClose]\<rparr>\<rparr>,
      VBool True)
   \<and> disconnect fresh = (fresh, VNone)
   \<and> snd (disconnect fresh) \<noteq> VBool False"
  by (simp add: disconnect_def log_events_def fresh_def init_def connected_def)





text \<open>\<^verbatim>\<open>update\<close>, \<^verbatim>\<open>delete\<close> and \<^verbatim>\<open>insert_batch\<close> on a non-empty list do not check the
  connection: without one, the attribute access on \<^verbatim>\<open>None\<close> raises \<^verbatim>\<open>AttributeError\<close>.\<close>

lemma update_not_connected:
  "connection m = None \<Longrightarrow>
   update d m table_name data where_clause where_params = (m, Inl (none_has_no ''cursor''))"
  by (simp add: update_def)

lemma delete_not_connected:
  "connection m = None \<Longrightarrow>
   delete d m table_name where_clause where_params = (m, Inl (none_has_no ''cursor''))"
  by (simp add: delete_def)

lemma insert_chunk_not_connected:
  "connection m = None \<Longrightarrow> batch \<noteq> [] \<Longrightarrow>
   insert_chunk d table_name m batch = (m, Inl (none_has_no ''cursor''))"
  by (cases batch) (simp_all add: insert_chunk_def)

lemma insert_batch_not_connected:
  assumes "connection m = None" "data_list \<noteq> []" "0 < b"
  shows "insert_batch max_batch_size d m table_name data_list (Some b)
           = (m, Inl (none_has_no ''cursor''))"
proof -
  have "take (nat b) (drop 0 data_list) \<noteq> []" using assms by simp
  then have "insert_chunk d table_name m (take (nat b) (drop 0 data_list))
               = (m, Inl (none_has_no ''cursor''))"
    using assms(1) by (rule insert_chunk_not_connected [rotated])
  then have "insert_batch_loop d table_name data_list (nat b) 0 m 0
               = (m, Inl (none_has_no ''cursor''))"
    using assms by (subst insert_batch_loop.simps) simp
  then show ?thesis using assms by (simp add: insert_batch_def)
qed

section \<open>The execution primitive\<close>

lemma execute_query_closed:
  "connection m = Some c \<Longrightarrow> closed c \<Longrightarrow>
   execute_query d m q ps f fo cm = (m, Inl (Error closed_message))"
  by (simp add: execute_query_def)

lemma execute_query_rejected:
  assumes "connection m = Some c" "\<not> closed c"
    and "execute_outcome d (trace c @ [CursorOpen]) q ps = Inl msg"
  shows "execute_query d m q ps f fo cm =
           (m\<lparr>connection := Some (c\<lparr>trace := trace c @
                [CursorOpen, Execute q ps, Rollback, CursorClose]\<rparr>)\<rparr>, Inl (Error msg))"
  using assms by (simp add: execute_query_def log_events_def set_conn_def)

lemma execute_query_fetch_all:
  assumes "connection m = Some c" "\<not> closed c"
    and "execute_outcome d (trace c @ [CursorOpen]) q ps = Inr cur"
    and "result_rows cur = Some rs"
  shows "execute_query d m q ps True fo cm =
           (m\<lparr>connection := Some (c\<lparr>trace := trace c @
                [CursorOpen, Execute q ps, FetchAll, CursorClose]\<rparr>)\<rparr>, Inr (Rows rs))"
  using assms by (simp add: execute_query_def log_events_def set_conn_def)

lemma execute_query_fetch_one:
  assumes "connection m = Some c" "\<not> closed c"
    and "execute_outcome d (trace c @ [CursorOpen]) q ps = Inr cur"
    and "result_rows cur = Some rs"
  shows "execute_query d m q ps False True cm =
           (m\<lparr>connection := Some (c\<lparr>trace := trace c @
                [CursorOpen, Execute q ps, FetchOne, CursorClose]\<rparr>)\<rparr>,
            Inr (Row (case rs of [] \<Rightarrow> None | r # _ \<Rightarrow> Some r)))"
  using assms by (simp add: execute_query_def log_events_def set_conn_def)

lemma execute_query_commit:
  assumes "connection m = Some c" "\<not> closed c"
    and "execute_outcome d (trace c @ [CursorOpen]) q ps = Inr cur"
  shows "execute_query d m q ps False False True =
           (m\<lparr>connection := Some (c\<lparr>trace := trace c @
                [CursorOpen, Execute q ps, Commit, CursorClose]\<rparr>)\<rparr>, Inr NoResult)"
  using assms by (simp add: execute_query_def log_events_def set_conn_def)

lemma execute_query_no_result_set:
  assumes "connection m = Some c" "\<not> closed c"
    and "execute_outcome d (trace c @ [CursorOpen]) q ps = Inr cur"
    and "result_rows cur = None" "f \<or> fo"
  shows "execute_query d m q ps f fo cm =
           (m\<lparr>connection := Some (c\<lparr>trace := trace c @
                [CursorOpen, Execute q ps, if f then FetchAll else FetchOne,
                 Rollback, CursorClose]\<rparr>)\<rparr>, Inl (Error no_results_message))"
  using assms by (auto simp add: execute_query_def log_events_def set_conn_def)

text \<open>Every failure of \<^verbatim>\<open>_execute_query\<close> on an open connection has rolled back and
  closed the cursor.\<close>

lemma execute_query_failure_rolls_back:
  assumes "connection m = Some c" "\<not> closed c"
    and "execute_query d m q ps f fo cm = (m', Inl e)"
  shows "\<exists>evs. m' = m\<lparr>connection := Some (c\<lparr>trace := trace c @
                  CursorOpen # Execute q ps # evs @ [Rollback, CursorClose]\<rparr>)\<rparr>"
proof -
  let ?after = "\<lambda>evs. m\<lparr>connection := Some (c\<lparr>trace := trace c @
                  CursorOpen # Execute q ps # evs @ [Rollback, CursorClose]\<rparr>)\<rparr>"
  have "m' = ?after [] \<or> m' = ?after [FetchAll] \<or> m' = ?after [FetchOne]"
    using assms
    by (auto simp add: execute_query_def log_events_def set_conn_def Let_def
        split: option.splits if_splits sum.splits)
  then show ?thesis by blast
qed

text \<open>A success of \<^verbatim>\<open>_execute_query\<close> in fetch-one mode has not committed.\<close>

lemma execute_query_fetch_one_success:
  assumes "execute_query d m q ps False True cm = (m', Inr r)"
  shows "\<exists>c cur rs. connection m = Some c \<and> \<not> closed c
           \<and> execute_outcome d (trace c @ [CursorOpen]) q ps = Inr cur
           \<and> result_rows cur = Some rs
           \<and> r = Row (case rs of [] \<Rightarrow> None | r # _ \<Rightarrow> Some r)
           \<and> m' = m\<lparr>connection := Some (c\<lparr>trace := trace c @
                     [CursorOpen, Execute q ps, FetchOne, CursorClose]\<rparr>)\<rparr>"
  using assms
  by (auto simp add: execute_query_def log_events_def set_conn_def Let_def
      split: option.splits if_splits sum.splits)

section \<open>Insert with a returned id\<close>

text \<open>
  Claim C9. Every successful \<^verbatim>\<open>insert\<close> with \<^verbatim>\<open>return_id=True\<close> has gone through the
  fetch-one branch of \<^verbatim>\<open>_execute_query\<close>, which returns before the commit step although
  \<^verbatim>\<open>commit=True\<close> was passed: the call returns the first field of the fetched
  \<^verbatim>\<open>RETURNING\<close> row (or \<^verbatim>\<open>None\<close> when there is no row), and what it has done on the
  connection is open a cursor, execute, fetch one row and close the cursor, without a
  commit.
\<close>

theorem insert_returning_not_committed:
  assumes "insert_row d m table_name data True = (m', Inr v)"
  shows "\<exists>c cur rs.
           connection m = Some c
         \<and> execute_outcome d (trace c @ [CursorOpen])
              (insert_sql table_name (keys data) @ '' RETURNING id'')
              (Some (dict_values data)) = Inr cur
         \<and> result_rows cur = Some rs
         \<and> v = (case rs of (x # _) # _ \<Rightarrow> Some x | _ \<Rightarrow> None)
         \<and> connection m' = Some (c\<lparr>trace := trace c @
              [CursorOpen,
               Execute (insert_sql table_name (keys data) @ '' RETURNING id'')
                 (Some (dict_values data)),
               FetchOne, CursorClose]\<rparr>)
         \<and> Commit \<notin> set (drop (length (trace c)) (trace (the (connection m'))))"
proof -
  let ?q = "insert_sql table_name (keys data) @ '' RETURNING id''"
  from assms obtain r where
    e: "execute_query d m ?q (Some (dict_values data)) False True True = (m', Inr r)"
    and v: "v = first_of_row r"
    by (auto simp add: insert_row_def split: prod.splits sum.splits)
  from execute_query_fetch_one_success [OF e] obtain c cur rs where
    c: "connection m = Some c"
    and o: "execute_outcome d (trace c @ [CursorOpen]) ?q (Some (dict_values data)) = Inr cur"
    and rs: "result_rows cur = Some rs"
    and r: "r = Row (case rs of [] \<Rightarrow> None | r # _ \<Rightarrow> Some r)"
    and m': "m' = m\<lparr>connection := Some (c\<lparr>trace := trace c @
               [CursorOpen, Execute ?q (Some (dict_values data)), FetchOne, CursorClose]\<rparr>)\<rparr>"
    by blast
  have "v = (case rs of (x # _) # _ \<Rightarrow> Some x | _ \<Rightarrow> None)"
    using v r by (simp add: first_of_row_def split: list.splits)
  with c o rs m' show ?thesis by auto
qed

lemma example_insert_sql:
  "insert_sql ''users'' (keys [(''name'', VStr ''John'')]) = ''INSERT INTO users (name) VALUES (%s)''"
  by (simp add: insert_sql_def keys_def)

lemma insert_returning_example:
  "insert_row example_driver connected ''users'' [(''name'', VStr ''John'')] True =
     (\<lparr>config = [], connection = Some \<lparr>closed = False, trace =
         [CursorOpen,
          Execute ''INSERT INTO users (name) VALUES (%s) RETURNING id'' (Some [VStr ''John'']),
          FetchOne, CursorClose]\<rparr>\<rparr>,
      Inr (Some (VInt 7)))"
  by (simp add: insert_row_def example_insert_sql execute_query_def connected_def
      example_driver_def example_cursor_def log_events_def set_conn_def dict_values_def
      first_of_row_def)

theorem insert_returning_not_committed_witness:
  "insert_row example_driver connected ''users'' [(''name'', VStr ''John'')] True =
     (\<lparr>config = [], connection = Some \<lparr>closed = False, trace =
         [CursorOpen,
          Execute ''INSERT INTO users (name) VALUES (%s) RETURNING id'' (Some [VStr ''John'']),
          FetchOne, CursorClose]\<rparr>\<rparr>,
      Inr (Some (VInt 7)))
   \<and> Commit \<notin> set (drop (length (trace (the (connection connected))))
         (trace (the (connection \<lparr>config = [], connection = Some \<lparr>closed = False, trace =
         [CursorOpen,
          Execute ''INSERT INTO users (name) VALUES (%s) RETURNING id'' (Some [VStr ''John'']),
          FetchOne, CursorClose]\<rparr>\<rparr>))))"
  using insert_returning_not_committed [OF insert_returning_example] insert_returning_example
  by (simp add: connected_def)

text \<open>Without \<^verbatim>\<open>return_id\<close> the same call commits.\<close>

lemma insert_plain_commits:
  assumes "connection m = Some c" "\<not> closed c"
    and "execute_outcome d (trace c @ [CursorOpen]) (insert_sql table_name (keys data))
           (Some (dict_values data)) = Inr cur"
  shows "insert_row d m table_name data False =
           (m\<lparr>connection := Some (c\<lparr>trace := trace c @
                [CursorOpen,
                 Execute (insert_sql table_name (keys data)) (Some (dict_values data)),
                 Commit, CursorClose]\<rparr>)\<rparr>, Inr None)"
  using execute_query_commit [OF assms] by (simp add: insert_row_def)

section \<open>Query results\<close>

lemma query_tuples_unchanged:
  assumes "connection m = Some c" "\<not> closed c"
    and "execute_outcome d (trace c @ [CursorOpen]) q ps = Inr cur"
    and "result_rows cur = Some rs"
  shows "query d m q ps False =
           (m\<lparr>connection := Some (c\<lparr>trace := trace c @
                [CursorOpen, Execute q ps, FetchAll, CursorClose]\<rparr>)\<rparr>, Inr (Tuples rs))"
  using execute_query_fetch_all [OF assms] by (simp add: query_def or_empty_def)

lemma query_as_table_nonempty_fails:
  assumes "connection m = Some c" "\<not> closed c"
    and "execute_outcome d (trace c @ [CursorOpen]) q ps = Inr cur"
    and "result_rows cur = Some rs" "rs \<noteq> []"
  shows "query d m q ps True =
           (m\<lparr>connection := Some (c\<lparr>trace := trace c @
                [CursorOpen, Execute q ps, FetchAll, CursorClose, CursorOpen]\<rparr>)\<rparr>,
            Inl none_not_iterable)"
  using execute_query_fetch_all [OF assms(1-4)] assms(2,5)
  by (simp add: query_def or_empty_def fresh_cursor_description_def set_conn_def
      log_events_def)

lemma query_as_table_only_empty:
  assumes "query d m q ps True = (m', Inr r)"
  shows "r = DataFrame [] []"
  using assms
  by (auto simp add: query_def fresh_cursor_description_def Let_def
      split: prod.splits sum.splits if_splits option.splits)

text \<open>
  Claim C5 at a concrete input. The database answers \<^verbatim>\<open>SELECT a, b FROM t\<close> with the
  columns \<open>a\<close>, \<open>b\<close> and two rows. With \<^verbatim>\<open>return_df=True\<close> the call does not return a
  table with these columns and rows: it raises \<^verbatim>\<open>TypeError\<close>, after opening a second
  cursor that it leaves open.
\<close>

theorem query_as_table_raises:
  "execute_outcome example_driver [CursorOpen] ''SELECT a, b FROM t'' None
     = Inr \<lparr>description = Some [''a'', ''b''],
            result_rows = Some [[VInt 1, VInt 2], [VInt 3, VInt 4]], rowcount = 2\<rparr>
   \<and> query example_driver connected ''SELECT a, b FROM t'' None True
     = (\<lparr>config = [], connection = Some \<lparr>closed = False, trace =
          [CursorOpen, Execute ''SELECT a, b FROM t'' None, FetchAll, CursorClose,
           CursorOpen]\<rparr>\<rparr>,
        Inl none_not_iterable)
   \<and> query example_driver connected ''SELECT a, b FROM t'' None False
     = (\<lparr>config = [], connection = Some \<lparr>closed = False, trace =
          [CursorOpen, Execute ''SELECT a, b FROM t'' None, FetchAll, CursorClose]\<rparr>\<rparr>,
        Inr (Tuples [[VInt 1, VInt 2], [VInt 3, VInt 4]]))"
  by (simp add: query_def execute_query_def connected_def example_driver_def
      example_cursor_def log_events_def set_conn_def or_empty_def
      fresh_cursor_description_def)

section \<open>Rollback on failure\<close>

lemma update_rejected:
  assumes "connection m = Some c" "\<not> closed c"
    and "execute_outcome d (trace c @ [CursorOpen])
           (update_sql table_name (keys data) where_clause)
           (Some (dict_values data @ (case where_params of None \<Rightarrow> [] | Some ps \<Rightarrow> ps)))
         = Inl msg"
  shows "update d m table_name data where_clause where_params =
           (m\<lparr>connection := Some (c\<lparr>trace := trace c @
                [CursorOpen,
                 Execute (update_sql table_name (keys data) where_clause)
                   (Some (dict_values data @
                      (case where_params of None \<Rightarrow> [] | Some ps \<Rightarrow> ps)))]\<rparr>)\<rparr>,
            Inl (Error msg))"
  using assms by (simp add: update_def log_events_def set_conn_def)

lemma delete_rejected:
  assumes "connection m = Some c" "\<not> closed c"
    and "execute_outcome d (trace c @ [CursorOpen]) (delete_sql table_name where_clause)
           where_params = Inl msg"
  shows "delete d m table_name where_clause where_params =
           (m\<lparr>connection := Some (c\<lparr>trace := trace c @
                [CursorOpen, Execute (delete_sql table_name where_clause) where_params]\<rparr>)\<rparr>,
            Inl (Error msg))"
  using assms by (simp add: delete_def log_events_def set_conn_def)

lemma insert_chunk_rejected:
  assumes "connection m = Some c" "\<not> closed c"
    and "batch = first # others"
    and "batch_values (keys first) batch = Inr vals"
    and "executemany_outcome d (trace c @ [CursorOpen]) (insert_sql table_name (keys first))
           vals = Inl msg"
  shows "insert_chunk d table_name m batch =
           (m\<lparr>connection := Some (c\<lparr>trace := trace c @
                [CursorOpen, ExecuteMany (insert_sql table_name (keys first)) vals]\<rparr>)\<rparr>,
            Inl (Error msg))"
  using assms by (simp add: insert_chunk_def log_events_def set_conn_def)

lemma insert_failure_rolls_back:
  assumes "connection m = Some c" "\<not> closed c"
    and "insert_row d m table_name data return_id = (m', Inl e)"
  shows "\<exists>q ps evs. m' = m\<lparr>connection := Some (c\<lparr>trace := trace c @
                  CursorOpen # Execute q ps # evs @ [Rollback, CursorClose]\<rparr>)\<rparr>"
proof -
  from assms(3) obtain q ps f fo cm where "execute_query d m q ps f fo cm = (m', Inl e)"
    by (auto simp add: insert_row_def Let_def split: prod.splits sum.splits)
  from execute_query_failure_rolls_back [OF assms(1,2) this] show ?thesis by blast
qed

lemma create_table_failure_rolls_back:
  assumes "connection m = Some c" "\<not> closed c"
    and "create_table d m table_name columns primary_key if_not_exists = (m', Inl e)"
  shows "\<exists>q ps evs. m' = m\<lparr>connection := Some (c\<lparr>trace := trace c @
                  CursorOpen # Execute q ps # evs @ [Rollback, CursorClose]\<rparr>)\<rparr>"
proof -
  from assms(3) obtain q ps f fo cm where "execute_query d m q ps f fo cm = (m', Inl e)"
    by (auto simp add: create_table_def split: prod.splits sum.splits)
  from execute_query_failure_rolls_back [OF assms(1,2) this] show ?thesis by blast
qed

lemma drop_table_failure_rolls_back:
  assumes "connection m = Some c" "\<not> closed c"
    and "drop_table d m table_name if_exists = (m', Inl e)"
  shows "\<exists>q ps evs. m' = m\<lparr>connection := Some (c\<lparr>trace := trace c @
                  CursorOpen # Execute q ps # evs @ [Rollback, CursorClose]\<rparr>)\<rparr>"
proof -
  from assms(3) obtain q ps f fo cm where "execute_query d m q ps f fo cm = (m', Inl e)"
    by (auto simp add: drop_table_def split: prod.splits sum.splits)
  from execute_query_failure_rolls_back [OF assms(1,2) this] show ?thesis by blast
qed

lemma table_exists_failure_rolls_back:
  assumes "connection m = Some c" "\<not> closed c"
    and "table_exists d m table_name = (m', Inl e)"
  shows "\<exists>q ps evs. m' = m\<lparr>connection := Some (c\<lparr>trace := trace c @
                  CursorOpen # Execute q ps # evs @ [Rollback, CursorClose]\<rparr>)\<rparr>"
proof -
  from assms(3) obtain q ps f fo cm where "execute_query d m q ps f fo cm = (m', Inl e)"
    by (auto simp add: table_exists_def split: prod.splits sum.splits)
  from execute_query_failure_rolls_back [OF assms(1,2) this] show ?thesis by blast
qed

text \<open>\<^verbatim>\<open>query\<close> and \<^verbatim>\<open>get_table_columns\<close> can also fail after the statement has been
  executed and fetched, while they build their result.\<close>

lemma query_failure_rolls_back:
  assumes "connection m = Some c" "\<not> closed c"
    and "query d m q ps return_df = (m', Inl e)" "e \<noteq> none_not_iterable"
  shows "\<exists>evs. m' = m\<lparr>connection := Some (c\<lparr>trace := trace c @
                  CursorOpen # Execute q ps # evs @ [Rollback, CursorClose]\<rparr>)\<rparr>"
proof (cases "execute_query d m q ps True False False")
  case (Pair m1 r)
  show ?thesis
  proof (cases r)
    case (Inl e1)
    with Pair assms(3) have "execute_query d m q ps True False False = (m', Inl e)"
      by (simp add: query_def)
    from execute_query_failure_rolls_back [OF assms(1,2) this] show ?thesis .
  next
    case (Inr res)
    with Pair assms(1,2) have "\<exists>c1. connection m1 = Some c1 \<and> \<not> closed c1"
      by (auto simp add: execute_query_def log_events_def set_conn_def Let_def
          split: option.splits if_splits sum.splits)
    with Pair Inr assms(3,4) show ?thesis
      by (auto simp add: query_def fresh_cursor_description_def Let_def split: if_splits)
  qed
qed

lemma get_table_columns_failure_rolls_back:
  assumes "connection m = Some c" "\<not> closed c"
    and "get_table_columns d m table_name = (m', Inl e)"
    and "e \<noteq> IndexError ''tuple index out of range''"
  shows "\<exists>q ps evs. m' = m\<lparr>connection := Some (c\<lparr>trace := trace c @
                  CursorOpen # Execute q ps # evs @ [Rollback, CursorClose]\<rparr>)\<rparr>"
proof (cases "execute_query d m table_columns_sql (Some [VStr table_name]) True False False")
  case (Pair m1 r)
  show ?thesis
  proof (cases r)
    case (Inl e1)
    with Pair assms(3) have
      "execute_query d m table_columns_sql (Some [VStr table_name]) True False False
         = (m', Inl e)"
      by (simp add: get_table_columns_def)
    from execute_query_failure_rolls_back [OF assms(1,2) this] show ?thesis by blast
  next
    case (Inr res)
    have "e' = IndexError ''tuple index out of range''"
      if "collect (map column_info rs) = Inl e'" for rs e'
      using that
      by (induction rs) (auto simp add: column_info_def split: if_splits sum.splits)
    with Pair Inr assms(3,4) show ?thesis
      by (auto simp add: get_table_columns_def)
  qed
qed

text \<open>\<^verbatim>\<open>execute_from_sql_file\<close>: a failing statement has been rolled back, after which the
  loop is left.\<close>

lemma execute_query_success_extends:
  assumes "execute_query d m q ps f fo cm = (m', Inr r)"
  shows "\<exists>c evs. connection m = Some c \<and> \<not> closed c
           \<and> m' = m\<lparr>connection := Some (c\<lparr>trace := trace c @ evs\<rparr>)\<rparr>"
proof -
  from assms obtain c where c: "connection m = Some c" "\<not> closed c"
    by (auto simp add: execute_query_def split: option.splits if_splits)
  let ?after = "\<lambda>evs. m\<lparr>connection := Some (c\<lparr>trace := trace c @ evs\<rparr>)\<rparr>"
  have "m' = ?after [CursorOpen, Execute q ps, FetchAll, CursorClose]
      \<or> m' = ?after [CursorOpen, Execute q ps, FetchOne, CursorClose]
      \<or> m' = ?after [CursorOpen, Execute q ps, Commit, CursorClose]
      \<or> m' = ?after [CursorOpen, Execute q ps, CursorClose]"
    using assms c
    by (auto simp add: execute_query_def log_events_def set_conn_def Let_def
        split: option.splits if_splits sum.splits)
  with c show ?thesis by blast
qed

lemma run_statements_failure_rolls_back:
  assumes "connection m = Some c" "\<not> closed c"
    and "run_statements d m stmts results = (m', Inl e)"
  shows "\<exists>evs. m' = m\<lparr>connection := Some (c\<lparr>trace := trace c @
                  evs @ [Rollback, CursorClose]\<rparr>)\<rparr>"
  using assms
proof (induction stmts arbitrary: m c results)
  case Nil
  then show ?case by simp
next
  case (Cons s rest)
  let ?f = "is_select s"
  obtain m1 r where step: "execute_query d m s None ?f False (\<not> ?f) = (m1, r)"
    by (cases "execute_query d m s None ?f False (\<not> ?f)") auto
  show ?case
  proof (cases r)
    case (Inl e1)
    with step Cons.prems(3) have "execute_query d m s None ?f False (\<not> ?f) = (m', Inl e)"
      by (auto split: if_splits)
    from execute_query_failure_rolls_back [OF Cons.prems(1,2) this]
    obtain evs where "m' = m\<lparr>connection := Some (c\<lparr>trace := trace c @
                  CursorOpen # Execute s None # evs @ [Rollback, CursorClose]\<rparr>)\<rparr>"
      by blast
    then have "m' = m\<lparr>connection := Some (c\<lparr>trace := trace c @
                  (CursorOpen # Execute s None # evs) @ [Rollback, CursorClose]\<rparr>)\<rparr>"
      by simp
    then show ?thesis by blast
  next
    case (Inr res)
    with step execute_query_success_extends [of d m s None ?f False "\<not> ?f" m1 res]
      Cons.prems(1,2)
    obtain evs1 where m1: "m1 = m\<lparr>connection := Some (c\<lparr>trace := trace c @ evs1\<rparr>)\<rparr>"
      by auto
    let ?c1 = "c\<lparr>trace := trace c @ evs1\<rparr>"
    have c1: "connection m1 = Some ?c1" "\<not> closed ?c1"
      using m1 Cons.prems(2) by simp_all
    from step Inr Cons.prems(3) obtain results1 where
      "run_statements d m1 rest results1 = (m', Inl e)"
      by (auto split: if_splits)
    from Cons.IH [OF c1 this] obtain evs where
      "m' = m1\<lparr>connection := Some (?c1\<lparr>trace := trace ?c1 @
                  evs @ [Rollback, CursorClose]\<rparr>)\<rparr>"
      by blast
    with m1 have "m' = m\<lparr>connection := Some (c\<lparr>trace := trace c @
                  (evs1 @ evs) @ [Rollback, CursorClose]\<rparr>)\<rparr>"
      by simp
    then show ?thesis by blast
  qed
qed

lemma execute_from_sql_file_failure_rolls_back:
  assumes "connection m = Some c" "\<not> closed c"
    and "fs file_path = Inr content"
    and "execute_from_sql_file fs d m file_path = (m', Inl e)"
  shows "\<exists>evs. m' = m\<lparr>connection := Some (c\<lparr>trace := trace c @
                  evs @ [Rollback, CursorClose]\<rparr>)\<rparr>"
proof -
  from assms(3,4) have "run_statements d m (sql_statements content) NoResult = (m', Inl e)"
    by (auto simp add: execute_from_sql_file_def SQLReader_read_def
        split: prod.splits sum.splits)
  with assms(1,2) show ?thesis by (rule run_statements_failure_rolls_back)
qed

text \<open>
  Claim C1 at a concrete input. The database rejects the statement of an \<^verbatim>\<open>update\<close> on
  an open connection. The error is re-raised, but all that has happened on the connection
  is that a cursor was opened and the statement executed: there is no rollback (and the
  cursor stays open). \<^verbatim>\<open>delete\<close> and \<^verbatim>\<open>insert_batch\<close> behave alike
  (\<open>delete_rejected\<close>, \<open>insert_chunk_rejected\<close>), whereas the operations that go through
  \<^verbatim>\<open>_execute_query\<close> roll back (\<open>execute_query_failure_rolls_back\<close> and the lemmas after
  it).
\<close>

theorem update_failure_without_rollback:
  "update failing_driver connected ''users'' [(''email'', VStr ''new'')] ''id = %s''
       (Some [VInt 1])
     = (\<lparr>config = [], connection = Some \<lparr>closed = False, trace =
          [CursorOpen,
           Execute ''UPDATE users SET email = %s WHERE id = %s''
             (Some [VStr ''new'', VInt 1])]\<rparr>\<rparr>,
        Inl (Error ''relation does not exist''))
   \<and> Rollback \<notin> set [CursorOpen,
           Execute ''UPDATE users SET email = %s WHERE id = %s''
             (Some [VStr ''new'', VInt 1])]"
  by (simp add: update_def update_sql_def keys_def dict_values_def connected_def
      failing_driver_def log_events_def set_conn_def)

section \<open>Running a SQL file\<close>

subsection \<open>The test for a \<^verbatim>\<open>SELECT\<close> statement\<close>

text \<open>
  \<^verbatim>\<open>statement.upper().startswith("SELECT")\<close> is the case-insensitive literal prefix
  match. A character has the upper-case form S, E, L, C or T exactly when it is that
  letter in upper or in lower case, and the SS of a sharp s finds no place in
  \<^verbatim>\<open>SELECT\<close>.
\<close>

lemma upper_char_is:
  fixes u c :: char
  defines "k \<equiv> (of_char u :: nat)"
  assumes "k < 97"
  shows "upper_char c = u \<longleftrightarrow>
           c = u \<or> (65 \<le> k \<and> k \<le> 90 \<and> (of_char c :: nat) = k + 32)"
proof -
  let ?n = "of_char c :: nat"
  have n: "?n < 256" by simp
  have same: "c = u \<longleftrightarrow> ?n = k" unfolding k_def by simp
  show ?thesis
  proof (cases "(97 \<le> ?n \<and> ?n \<le> 122) \<or> (224 \<le> ?n \<and> ?n \<le> 254 \<and> ?n \<noteq> 247)")
    case True
    then have "upper_char c = char_of (?n - 32)" by (simp add: upper_char_def Let_def)
    moreover have "char_of (?n - 32) = u \<longleftrightarrow> ?n - 32 = k"
    proof -
      have "?n - 32 < 256" using n by arith
      then have "(?n - 32) mod 2 ^ 8 = ?n - 32" by simp
      then show ?thesis unfolding k_def by (simp only: char_of_eq_iff take_bit_eq_mod)
    qed
    moreover have "?n \<noteq> k" using True assms(2) by arith
    moreover have "?n - 32 = k \<longleftrightarrow> 65 \<le> k \<and> k \<le> 90 \<and> ?n = k + 32"
      using True assms(2) by arith
    ultimately show ?thesis using same by simp
  next
    case False
    then have "upper_char c = c" by (auto simp add: upper_char_def Let_def)
    moreover have "\<not> (65 \<le> k \<and> k \<le> 90 \<and> ?n = k + 32)" using False by arith
    ultimately show ?thesis by auto
  qed
qed

lemma upper_char_letter:
  assumes "(of_char u :: nat) = k" "(of_char l :: nat) = k + 32" "65 \<le> k" "k \<le> 90"
  shows "upper_char c = u \<longleftrightarrow> either_case u l c"
proof -
  have "(of_char u :: nat) < 97" using assms(1,4) by simp
  from upper_char_is [OF this, of c]
  have "upper_char c = u \<longleftrightarrow> c = u \<or> (of_char c :: nat) = of_char l"
    using assms by simp
  also have "(of_char c :: nat) = of_char l \<longleftrightarrow> c = l" by (rule of_char_eq_iff)
  finally show ?thesis by (simp add: either_case_def)
qed

lemma upper_char_letters:
  "upper_char c = CHR ''S'' \<longleftrightarrow> either_case CHR ''S'' CHR ''s'' c"
  "upper_char c = CHR ''E'' \<longleftrightarrow> either_case CHR ''E'' CHR ''e'' c"
  "upper_char c = CHR ''L'' \<longleftrightarrow> either_case CHR ''L'' CHR ''l'' c"
  "upper_char c = CHR ''C'' \<longleftrightarrow> either_case CHR ''C'' CHR ''c'' c"
  "upper_char c = CHR ''T'' \<longleftrightarrow> either_case CHR ''T'' CHR ''t'' c"
proof -
  show "upper_char c = CHR ''S'' \<longleftrightarrow> either_case CHR ''S'' CHR ''s'' c"
    by (rule upper_char_letter [where k = 83]) simp_all
  show "upper_char c = CHR ''E'' \<longleftrightarrow> either_case CHR ''E'' CHR ''e'' c"
    by (rule upper_char_letter [where k = 69]) simp_all
  show "upper_char c = CHR ''L'' \<longleftrightarrow> either_case CHR ''L'' CHR ''l'' c"
    by (rule upper_char_letter [where k = 76]) simp_all
  show "upper_char c = CHR ''C'' \<longleftrightarrow> either_case CHR ''C'' CHR ''c'' c"
    by (rule upper_char_letter [where k = 67]) simp_all
  show "upper_char c = CHR ''T'' \<longleftrightarrow> either_case CHR ''T'' CHR ''t'' c"
    by (rule upper_char_letter [where k = 84]) simp_all
qed

lemma sharp_s_no_letter:
  "\<not> either_case CHR ''S'' CHR ''s'' (CHR 0xDF)" "\<not> either_case CHR ''E'' CHR ''e'' (CHR 0xDF)"
  "\<not> either_case CHR ''L'' CHR ''l'' (CHR 0xDF)" "\<not> either_case CHR ''C'' CHR ''c'' (CHR 0xDF)"
  "\<not> either_case CHR ''T'' CHR ''t'' (CHR 0xDF)"
  by (simp_all add: either_case_def)

lemma upper_Cons: "upper (c # s) = upper_chars c @ upper s"
  by (simp add: upper_def)

lemma upper_Nil: "upper [] = []"
  by (simp add: upper_def)

lemma is_select_iff: "is_select s = select_prefixed s"
proof -
  have "take (length ''SELECT'') (upper s) = ''SELECT'' \<longleftrightarrow> select_prefixed s"
    by (auto simp add: select_prefixed_def upper_Cons upper_Nil upper_chars_def
        upper_char_letters sharp_s_no_letter split: list.splits)
  then show ?thesis by (simp only: is_select_def startswith_def)
qed

subsection \<open>The loop over the statements\<close>

lemma run_statements_accepted:
  assumes "connection m = Some c" "\<not> closed c"
    and "\<forall>q\<in>set stmts. \<forall>h. \<exists>cur. execute_outcome d h q None = Inr cur
            \<and> (select_prefixed q \<longrightarrow> result_rows cur \<noteq> None)"
  shows "\<exists>res. run_statements d m stmts results =
             (m\<lparr>connection := Some (c\<lparr>trace := trace c @
                  concat (map statement_events stmts)\<rparr>)\<rparr>, Inr res)
           \<and> (\<not> list_ex select_prefixed stmts \<longrightarrow> res = results)
           \<and> (\<forall>pre s post. stmts = pre @ s # post \<and> select_prefixed s \<and> \<not> list_ex select_prefixed post \<longrightarrow>
                 (\<exists>cur rs. execute_outcome d
                      (trace c @ concat (map statement_events pre) @ [CursorOpen]) s None
                      = Inr cur
                    \<and> result_rows cur = Some rs \<and> res = Rows rs))"
  using assms
proof (induction stmts arbitrary: m c results)
  case Nil
  then show ?case by simp
next
  case (Cons s rest)
  from Cons.prems(3) obtain cur where
    cur: "execute_outcome d (trace c @ [CursorOpen]) s None = Inr cur"
    and sel: "select_prefixed s \<longrightarrow> result_rows cur \<noteq> None"
    by (meson list.set_intros(1))
  let ?c1 = "c\<lparr>trace := trace c @ statement_events s\<rparr>"
  let ?m1 = "m\<lparr>connection := Some ?c1\<rparr>"
  have c1: "connection ?m1 = Some ?c1" "\<not> closed ?c1"
    using Cons.prems(2) by simp_all
  have rest: "\<forall>q\<in>set rest. \<forall>h. \<exists>cur. execute_outcome d h q None = Inr cur
            \<and> (select_prefixed q \<longrightarrow> result_rows cur \<noteq> None)"
    using Cons.prems(3) by simp
  show ?case
  proof (cases "select_prefixed s")
    case True
    with sel obtain rs where rs: "result_rows cur = Some rs" by auto
    have step: "execute_query d m s None True False False = (?m1, Inr (Rows rs))"
      using execute_query_fetch_all [OF Cons.prems(1,2) cur rs, of False False] True
      by (simp add: statement_events_def)
    from Cons.IH [OF c1 rest, of "Rows rs"] obtain res where
      run: "run_statements d ?m1 rest (Rows rs) =
             (?m1\<lparr>connection := Some (?c1\<lparr>trace := trace ?c1 @
                  concat (map statement_events rest)\<rparr>)\<rparr>, Inr res)"
      and none: "\<not> list_ex select_prefixed rest \<longrightarrow> res = Rows rs"
      and last: "\<forall>pre s' post. rest = pre @ s' # post \<and> select_prefixed s' \<and> \<not> list_ex select_prefixed post \<longrightarrow>
                 (\<exists>cur rs. execute_outcome d
                      (trace ?c1 @ concat (map statement_events pre) @ [CursorOpen]) s' None
                      = Inr cur
                    \<and> result_rows cur = Some rs \<and> res = Rows rs)"
      by (elim exE conjE) (rule that)
    have a: "run_statements d m (s # rest) results =
             (m\<lparr>connection := Some (c\<lparr>trace := trace c @
                  concat (map statement_events (s # rest))\<rparr>)\<rparr>, Inr res)"
      using True step run by (simp add: is_select_iff)
    have b: "\<not> list_ex select_prefixed (s # rest) \<longrightarrow> res = results"
      using True by simp
    have c: "\<exists>cur rs. execute_outcome d
                      (trace c @ concat (map statement_events pre) @ [CursorOpen]) s' None
                      = Inr cur
                    \<and> result_rows cur = Some rs \<and> res = Rows rs"
      if h: "s # rest = pre @ s' # post" "select_prefixed s'" "\<not> list_ex select_prefixed post"
      for pre s' post
    proof (cases pre)
      case Nil
      with h have "s' = s" "post = rest" by simp_all
      with h none cur rs Nil show ?thesis by simp
    next
      case (Cons p pre')
      with h have "p = s" "rest = pre' @ s' # post" by simp_all
      with last h Cons show ?thesis by simp
    qed
    from a b c show ?thesis by blast
  next
    case False
    have step: "execute_query d m s None False False True = (?m1, Inr NoResult)"
      using execute_query_commit [OF Cons.prems(1,2) cur] False
      by (simp add: statement_events_def)
    from Cons.IH [OF c1 rest, of results] obtain res where
      run: "run_statements d ?m1 rest results =
             (?m1\<lparr>connection := Some (?c1\<lparr>trace := trace ?c1 @
                  concat (map statement_events rest)\<rparr>)\<rparr>, Inr res)"
      and none: "\<not> list_ex select_prefixed rest \<longrightarrow> res = results"
      and last: "\<forall>pre s' post. rest = pre @ s' # post \<and> select_prefixed s' \<and> \<not> list_ex select_prefixed post \<longrightarrow>
                 (\<exists>cur rs. execute_outcome d
                      (trace ?c1 @ concat (map statement_events pre) @ [CursorOpen]) s' None
                      = Inr cur
                    \<and> result_rows cur = Some rs \<and> res = Rows rs)"
      by (elim exE conjE) (rule that)
    have a: "run_statements d m (s # rest) results =
             (m\<lparr>connection := Some (c\<lparr>trace := trace c @
                  concat (map statement_events (s # rest))\<rparr>)\<rparr>, Inr res)"
      using False step run by (simp add: is_select_iff)
    have b: "\<not> list_ex select_prefixed (s # rest) \<longrightarrow> res = results"
      using False none by simp
    have c: "\<exists>cur rs. execute_outcome d
                      (trace c @ concat (map statement_events pre) @ [CursorOpen]) s' None
                      = Inr cur
                    \<and> result_rows cur = Some rs \<and> res = Rows rs"
      if h: "s # rest = pre @ s' # post" "select_prefixed s'" "\<not> list_ex select_prefixed post"
      for pre s' post
    proof (cases pre)
      case Nil
      with h False show ?thesis by simp
    next
      case (Cons p pre')
      with h have "p = s" "rest = pre' @ s' # post" by simp_all
      with last h Cons show ?thesis by simp
    qed
    from a b c show ?thesis by blast
  qed
qed

text \<open>
  Claim C4. The file is read and split into statements. On an open connection, and with a
  database that accepts each of the statements (answering each \<^verbatim>\<open>SELECT\<close>-prefixed one
  with a result set), \<^verbatim>\<open>execute_from_sql_file\<close> returns, having executed every statement
  in order: a statement whose first six characters are the letters of \<^verbatim>\<open>SELECT\<close>, each
  in upper or in lower case, is fetched with \<^verbatim>\<open>fetchall\<close> and not committed, every other
  one is executed and committed. The value returned is empty when no statement is
  \<^verbatim>\<open>SELECT\<close>-prefixed, and otherwise the rows that the database gave for the last
  \<^verbatim>\<open>SELECT\<close>-prefixed statement. The prefix match is stated without reference to
  \<^verbatim>\<open>upper\<close> (\<open>select_prefixed\<close>).
\<close>

theorem execute_from_sql_file_last_select:
  assumes "fs file_path = Inr content"
    and "connection m = Some c" "\<not> closed c"
    and "\<forall>q\<in>set (sql_statements content). \<forall>h. \<exists>cur. execute_outcome d h q None = Inr cur
            \<and> (select_prefixed q \<longrightarrow> result_rows cur \<noteq> None)"
  shows "\<exists>res. execute_from_sql_file fs d m file_path =
             (m\<lparr>connection := Some (c\<lparr>trace := trace c @
                  concat (map statement_events (sql_statements content))\<rparr>)\<rparr>, Inr res)
           \<and> (\<not> list_ex select_prefixed (sql_statements content) \<longrightarrow> res = [])
           \<and> (\<forall>pre s post. sql_statements content = pre @ s # post \<and> select_prefixed s
                  \<and> \<not> list_ex select_prefixed post \<longrightarrow>
                 (\<exists>cur. execute_outcome d
                      (trace c @ concat (map statement_events pre) @ [CursorOpen]) s None
                      = Inr cur
                    \<and> result_rows cur = Some res))"
proof -
  from run_statements_accepted [OF assms(2,3,4), of NoResult] obtain r where
    run: "run_statements d m (sql_statements content) NoResult =
             (m\<lparr>connection := Some (c\<lparr>trace := trace c @
                  concat (map statement_events (sql_statements content))\<rparr>)\<rparr>, Inr r)"
    and none: "\<not> list_ex select_prefixed (sql_statements content) \<longrightarrow> r = NoResult"
    and last: "\<forall>pre s post. sql_statements content = pre @ s # post \<and> select_prefixed s
                  \<and> \<not> list_ex select_prefixed post \<longrightarrow>
                 (\<exists>cur rs. execute_outcome d
                      (trace c @ concat (map statement_events pre) @ [CursorOpen]) s None
                      = Inr cur
                    \<and> result_rows cur = Some rs \<and> r = Rows rs)"
    by (elim exE conjE) (rule that)
  have a: "execute_from_sql_file fs d m file_path =
             (m\<lparr>connection := Some (c\<lparr>trace := trace c @
                  concat (map statement_events (sql_statements content))\<rparr>)\<rparr>,
              Inr (or_empty r))"
    using assms(1) run by (simp add: execute_from_sql_file_def SQLReader_read_def)
  have b: "\<not> list_ex select_prefixed (sql_statements content) \<longrightarrow> or_empty r = []"
    using none by (simp add: or_empty_def)
  have c: "\<forall>pre s post. sql_statements content = pre @ s # post \<and> select_prefixed s
                  \<and> \<not> list_ex select_prefixed post \<longrightarrow>
                 (\<exists>cur. execute_outcome d
                      (trace c @ concat (map statement_events pre) @ [CursorOpen]) s None
                      = Inr cur
                    \<and> result_rows cur = Some (or_empty r))"
    using last by (fastforce simp add: or_empty_def)
  from a b c show ?thesis by blast
qed


lemma is_select_examples:
  "is_select ''SELECT 1''" "is_select ''SELECT 2''" "is_select ''select 1''"
  "is_select ''SeLeCt * from t''" "\<not> is_select ''CREATE TABLE t(x INT)''"
  "\<not> is_select ''(SELECT 1)''" "\<not> is_select ''WITH x AS (SELECT 1) SELECT * FROM x''"
  by code_simp+

lemma select_prefixed_examples:
  "select_prefixed ''SELECT 1''" "select_prefixed ''SELECT 2''" "select_prefixed ''select 1''"
  "select_prefixed ''SeLeCt 2''" "\<not> select_prefixed ''CREATE TABLE t(x INT)''"
  "\<not> select_prefixed ''INSERT INTO t VALUES (1)''" "\<not> select_prefixed ''(SELECT 3)''"
  by (simp_all add: select_prefixed_def either_case_def)

lemma example_scripts_statements:
  "sql_statements ''SELECT 1; SELECT 2;'' = [''SELECT 1'', ''SELECT 2'']"
  "sql_statements ''CREATE TABLE t(x INT); SELECT 1;'' = [''CREATE TABLE t(x INT)'', ''SELECT 1'']"
  "sql_statements ''select 1; INSERT INTO t VALUES (1); SeLeCt 2; (SELECT 3)''
     = [''select 1'', ''INSERT INTO t VALUES (1)'', ''SeLeCt 2'', ''(SELECT 3)'']"
  by code_simp+

theorem execute_from_sql_file_last_select_witness:
  "execute_from_sql_file example_scripts example_driver connected ''two.sql'' =
     (\<lparr>config = [], connection = Some \<lparr>closed = False, trace =
         [CursorOpen, Execute ''SELECT 1'' None, FetchAll, CursorClose,
          CursorOpen, Execute ''SELECT 2'' None, FetchAll, CursorClose]\<rparr>\<rparr>,
      Inr [[VInt 2]])
   \<and> execute_from_sql_file example_scripts example_driver connected ''create.sql'' =
     (\<lparr>config = [], connection = Some \<lparr>closed = False, trace =
         [CursorOpen, Execute ''CREATE TABLE t(x INT)'' None, Commit, CursorClose,
          CursorOpen, Execute ''SELECT 1'' None, FetchAll, CursorClose]\<rparr>\<rparr>,
      Inr [[VInt 1]])
   \<and> execute_from_sql_file example_scripts mixed_case_driver connected ''mixed.sql'' =
     (\<lparr>config = [], connection = Some \<lparr>closed = False, trace =
         [CursorOpen, Execute ''select 1'' None, FetchAll, CursorClose,
          CursorOpen, Execute ''INSERT INTO t VALUES (1)'' None, Commit, CursorClose,
          CursorOpen, Execute ''SeLeCt 2'' None, FetchAll, CursorClose,
          CursorOpen, Execute ''(SELECT 3)'' None, Commit, CursorClose]\<rparr>\<rparr>,
      Inr [[VInt 2]])"
proof -
  let ?c = "\<lparr>closed = False, trace = []\<rparr>"
  let ?mixed = "''select 1; INSERT INTO t VALUES (1); SeLeCt 2; (SELECT 3)''"
  have conn: "connection connected = Some ?c" "\<not> closed ?c"
    by (simp_all add: connected_def)
  have mixed: "example_scripts ''mixed.sql'' = Inr ?mixed"
    by (simp add: example_scripts_def)
  have accepted_mixed: "\<forall>q\<in>set (sql_statements ?mixed). \<forall>h. \<exists>cur.
      execute_outcome mixed_case_driver h q None = Inr cur
      \<and> (select_prefixed q \<longrightarrow> result_rows cur \<noteq> None)"
    by (simp add: example_scripts_statements select_prefixed_examples mixed_case_driver_def
        example_cursor_def)
  note third = execute_from_sql_file_last_select
    [of example_scripts "''mixed.sql''" ?mixed connected ?c mixed_case_driver,
     OF mixed conn accepted_mixed]
  from third obtain res3 where
    a3: "execute_from_sql_file example_scripts mixed_case_driver connected ''mixed.sql'' =
           (connected\<lparr>connection := Some (?c\<lparr>trace := trace ?c @
               concat (map statement_events
                 [''select 1'', ''INSERT INTO t VALUES (1)'', ''SeLeCt 2'', ''(SELECT 3)''])\<rparr>)\<rparr>,
            Inr res3)"
    and l3: "\<forall>pre s post.
               [''select 1'', ''INSERT INTO t VALUES (1)'', ''SeLeCt 2'', ''(SELECT 3)'']
                 = pre @ s # post
                  \<and> select_prefixed s \<and> \<not> list_ex select_prefixed post \<longrightarrow>
                 (\<exists>cur. execute_outcome mixed_case_driver
                      (trace ?c @ concat (map statement_events pre) @ [CursorOpen]) s None
                      = Inr cur
                    \<and> result_rows cur = Some res3)"
    unfolding example_scripts_statements by (elim exE conjE) (rule that)
  from l3 [rule_format, of "[''select 1'', ''INSERT INTO t VALUES (1)'']" "''SeLeCt 2''"
      "[''(SELECT 3)'']"]
  have r3: "res3 = [[VInt 2]]"
    by (auto simp add: select_prefixed_examples mixed_case_driver_def example_cursor_def)
  have two: "example_scripts ''two.sql'' = Inr ''SELECT 1; SELECT 2;''"
    and create: "example_scripts ''create.sql'' = Inr ''CREATE TABLE t(x INT); SELECT 1;''"
    by (simp_all add: example_scripts_def)
  have accepted: "\<forall>q\<in>set (sql_statements ''SELECT 1; SELECT 2;''). \<forall>h. \<exists>cur.
      execute_outcome example_driver h q None = Inr cur
      \<and> (select_prefixed q \<longrightarrow> result_rows cur \<noteq> None)"
    "\<forall>q\<in>set (sql_statements ''CREATE TABLE t(x INT); SELECT 1;''). \<forall>h. \<exists>cur.
      execute_outcome example_driver h q None = Inr cur
      \<and> (select_prefixed q \<longrightarrow> result_rows cur \<noteq> None)"
    by (simp_all add: example_scripts_statements select_prefixed_examples example_driver_def
        example_cursor_def)
  note first = execute_from_sql_file_last_select
    [of example_scripts "''two.sql''" "''SELECT 1; SELECT 2;''" connected ?c example_driver,
     OF two conn accepted(1)]
  note second = execute_from_sql_file_last_select
    [of example_scripts "''create.sql''" "''CREATE TABLE t(x INT); SELECT 1;''" connected ?c
        example_driver, OF create conn accepted(2)]
  from first obtain res1 where
    a1: "execute_from_sql_file example_scripts example_driver connected ''two.sql'' =
           (connected\<lparr>connection := Some (?c\<lparr>trace := trace ?c @
               concat (map statement_events [''SELECT 1'', ''SELECT 2''])\<rparr>)\<rparr>, Inr res1)"
    and l1: "\<forall>pre s post. [''SELECT 1'', ''SELECT 2''] = pre @ s # post \<and> select_prefixed s
                  \<and> \<not> list_ex select_prefixed post \<longrightarrow>
                 (\<exists>cur. execute_outcome example_driver
                      (trace ?c @ concat (map statement_events pre) @ [CursorOpen]) s None
                      = Inr cur
                    \<and> result_rows cur = Some res1)"
    unfolding example_scripts_statements by (elim exE conjE) (rule that)
  from l1 [rule_format, of "[''SELECT 1'']" "''SELECT 2''" "[]"]
  have r1: "res1 = [[VInt 2]]"
    by (auto simp add: select_prefixed_examples example_driver_def example_cursor_def)
  from second obtain res2 where
    a2: "execute_from_sql_file example_scripts example_driver connected ''create.sql'' =
           (connected\<lparr>connection := Some (?c\<lparr>trace := trace ?c @
               concat (map statement_events [''CREATE TABLE t(x INT)'', ''SELECT 1''])\<rparr>)\<rparr>,
            Inr res2)"
    and l2: "\<forall>pre s post. [''CREATE TABLE t(x INT)'', ''SELECT 1''] = pre @ s # post
                  \<and> select_prefixed s \<and> \<not> list_ex select_prefixed post \<longrightarrow>
                 (\<exists>cur. execute_outcome example_driver
                      (trace ?c @ concat (map statement_events pre) @ [CursorOpen]) s None
                      = Inr cur
                    \<and> result_rows cur = Some res2)"
    unfolding example_scripts_statements by (elim exE conjE) (rule that)
  from l2 [rule_format, of "[''CREATE TABLE t(x INT)'']" "''SELECT 1''" "[]"]
  have r2: "res2 = [[VInt 1]]"
    by (auto simp add: select_prefixed_examples example_driver_def example_cursor_def)
  show ?thesis
    unfolding a1 a2 a3 r1 r2 r3
    by (simp add: statement_events_def select_prefixed_examples connected_def)
qed

section \<open>Batch insert\<close>

subsection \<open>Chunks\<close>

lemma chunks_Nil: "chunks n [] = []"
  by (simp add: chunks.simps)

lemma chunks_step: "xs \<noteq> [] \<Longrightarrow> 0 < n \<Longrightarrow> chunks n xs = take n xs # chunks n (drop n xs)"
  by (subst chunks.simps) simp

lemma chunks_drop:
  "0 < n \<Longrightarrow> i < length xs \<Longrightarrow>
   chunks n (drop i xs) = take n (drop i xs) # chunks n (drop (i + n) xs)"
  by (simp add: chunks_step add.commute)

lemma chunks_drop_done: "length xs \<le> i \<Longrightarrow> chunks n (drop i xs) = []"
  by (simp add: chunks_Nil)

lemma concat_chunks: "0 < n \<Longrightarrow> concat (chunks n xs) = xs"
proof (induction n xs rule: chunks.induct)
  case (1 n xs)
  show ?case
  proof (cases "xs = []")
    case True
    then show ?thesis by (simp add: chunks_Nil)
  next
    case False
    with 1 show ?thesis by (simp add: chunks_step)
  qed
qed

lemma chunks_sizes:
  "0 < n \<Longrightarrow> ch \<in> set (chunks n xs) \<Longrightarrow> ch \<noteq> [] \<and> length ch \<le> n"
proof (induction n xs rule: chunks.induct)
  case (1 n xs)
  show ?case
  proof (cases "xs = []")
    case True
    with 1 show ?thesis by (simp add: chunks_Nil)
  next
    case False
    with 1 show ?thesis by (auto simp add: chunks_step)
  qed
qed

lemma chunks_full:
  "0 < n \<Longrightarrow> ch \<in> set (butlast (chunks n xs)) \<Longrightarrow> length ch = n"
proof (induction n xs rule: chunks.induct)
  case (1 n xs)
  show ?case
  proof (cases "xs = []")
    case True
    with 1 show ?thesis by (simp add: chunks_Nil)
  next
    case False
    show ?thesis
    proof (cases "drop n xs = []")
      case True
      with False 1 show ?thesis by (simp add: chunks_step chunks_Nil)
    next
      case d: False
      then have "chunks n (drop n xs) \<noteq> []" using 1(2) by (simp add: chunks_step)
      with False 1 d show ?thesis by (auto simp add: chunks_step)
    qed
  qed
qed

lemma length_chunks: "0 < n \<Longrightarrow> length (chunks n xs) = (length xs + n - 1) div n"
proof (induction n xs rule: chunks.induct)
  case (1 n xs)
  show ?case
  proof (cases "xs = []")
    case True
    with 1 show ?thesis by (simp add: chunks_Nil)
  next
    case False
    then have pos: "0 < length xs" by simp
    have "length (chunks n xs) = Suc ((length xs - n + n - 1) div n)"
      using 1 False by (simp add: chunks_step)
    also have "\<dots> = (length xs + n - 1) div n"
    proof (cases "n \<le> length xs")
      case True
      then have "length xs + n - 1 = (length xs - n + n - 1) + n" using 1(2) by simp
      then show ?thesis using 1(2) by (simp only: div_add_self2)
    next
      case False
      then have "length xs - n + n - 1 = n - 1" by simp
      moreover have "(length xs + n - 1) div n = 1"
      proof (rule div_nat_eqI)
        show "n * 1 \<le> length xs + n - 1" using pos by arith
        show "length xs + n - 1 < n * Suc 1" using False pos by arith
      qed
      ultimately show ?thesis using 1(2) by simp
    qed
    finally show ?thesis .
  qed
qed


subsection \<open>The values of a chunk\<close>

lemma getitem_present: "k \<in> set (keys row) \<Longrightarrow> getitem row k = Inr (the (map_of row k))"
proof -
  assume "k \<in> set (keys row)"
  then have "map_of row k \<noteq> None" by (simp add: keys_def map_of_eq_None_iff)
  then show ?thesis by (auto simp add: getitem_def)
qed

lemma getitem_absent: "k \<notin> set (keys row) \<Longrightarrow> getitem row k = Inl (KeyError k)"
proof -
  assume "k \<notin> set (keys row)"
  then have "map_of row k = None" by (simp add: keys_def map_of_eq_None_iff)
  then show ?thesis by (simp add: getitem_def)
qed

lemma row_tuple_covered:
  "list_all (\<lambda>k. k \<in> set (keys row)) columns \<Longrightarrow>
   row_tuple columns row = Inr (project columns row)"
  by (induction columns) (simp_all add: row_tuple_def project_def getitem_present)

lemma row_tuple_missing:
  "\<not> list_all (\<lambda>k. k \<in> set (keys row)) columns \<Longrightarrow>
   \<exists>k\<in>set columns. k \<notin> set (keys row) \<and> row_tuple columns row = Inl (KeyError k)"
proof (induction columns)
  case Nil
  then show ?case by simp
next
  case (Cons col columns)
  show ?case
  proof (cases "col \<in> set (keys row)")
    case True
    with Cons obtain k where "k \<in> set columns" "k \<notin> set (keys row)"
      "row_tuple columns row = Inl (KeyError k)"
      by auto
    with True show ?thesis by (auto simp add: row_tuple_def getitem_present)
  next
    case False
    then show ?thesis by (auto simp add: row_tuple_def getitem_absent)
  qed
qed

lemma batch_values_covered:
  "list_all (\<lambda>row. list_all (\<lambda>k. k \<in> set (keys row)) columns) batch \<Longrightarrow>
   batch_values columns batch = Inr (map (project columns) batch)"
  by (induction batch) (simp_all add: batch_values_def row_tuple_covered)

lemma batch_values_missing:
  "\<not> list_all (\<lambda>row. list_all (\<lambda>k. k \<in> set (keys row)) columns) batch \<Longrightarrow>
   \<exists>k\<in>set columns. (\<exists>row\<in>set batch. k \<notin> set (keys row))
      \<and> batch_values columns batch = Inl (KeyError k)"
proof (induction batch)
  case Nil
  then show ?case by simp
next
  case (Cons row batch)
  show ?case
  proof (cases "list_all (\<lambda>k. k \<in> set (keys row)) columns")
    case True
    with Cons obtain k where "k \<in> set columns" "\<exists>row\<in>set batch. k \<notin> set (keys row)"
      "batch_values columns batch = Inl (KeyError k)"
      by auto
    with True show ?thesis by (auto simp add: batch_values_def row_tuple_covered)
  next
    case False
    from row_tuple_missing [OF this] show ?thesis by (auto simp add: batch_values_def)
  qed
qed

text \<open>Keys beyond the columns do not matter: rows that agree on the columns give the
  same values.\<close>

lemma project_ignores_other_keys:
  "\<forall>k\<in>set columns. map_of row k = map_of row' k \<Longrightarrow> project columns row = project columns row'"
  by (simp add: project_def)

subsection \<open>One chunk\<close>

lemma insert_chunk_accepted:
  assumes "connection m = Some c" "\<not> closed c" "chunk \<noteq> []" "chunk_covered chunk"
    and "executemany_outcome d (trace c @ [CursorOpen])
           (insert_sql table_name (keys (hd chunk))) (map (project (keys (hd chunk))) chunk)
         = Inr cur"
  shows "insert_chunk d table_name m chunk =
           (m\<lparr>connection := Some (c\<lparr>trace := trace c @ chunk_events table_name chunk\<rparr>)\<rparr>,
            Inr (length chunk))"
proof -
  from assms(3) obtain first others where ch: "chunk = first # others" by (cases chunk) auto
  have "batch_values (keys first) chunk = Inr (map (project (keys first)) chunk)"
    using assms(4) ch by (intro batch_values_covered) (simp add: chunk_covered_def)
  with assms(1,2,5) ch show ?thesis
    by (simp add: insert_chunk_def chunk_events_def log_events_def set_conn_def Let_def)
qed

lemma insert_chunk_missing_key:
  assumes "connection m = Some c" "\<not> closed c" "chunk \<noteq> []" "\<not> chunk_covered chunk"
  shows "\<exists>k\<in>set (keys (hd chunk)). (\<exists>row\<in>set chunk. k \<notin> set (keys row))
           \<and> insert_chunk d table_name m chunk =
               (m\<lparr>connection := Some (c\<lparr>trace := trace c @ [CursorOpen]\<rparr>)\<rparr>,
                Inl (KeyError k))"
proof -
  from assms(3) obtain first others where ch: "chunk = first # others" by (cases chunk) auto
  have "\<exists>k\<in>set (keys first). (\<exists>row\<in>set chunk. k \<notin> set (keys row))
          \<and> batch_values (keys first) chunk = Inl (KeyError k)"
    using assms(4) ch by (intro batch_values_missing) (simp add: chunk_covered_def)
  then obtain k where k: "k \<in> set (keys first)" "\<exists>row\<in>set chunk. k \<notin> set (keys row)"
    and "batch_values (keys first) chunk = Inl (KeyError k)" by blast
  with assms(1,2) ch have "insert_chunk d table_name m chunk =
               (m\<lparr>connection := Some (c\<lparr>trace := trace c @ [CursorOpen]\<rparr>)\<rparr>,
                Inl (KeyError k))"
    by (simp add: insert_chunk_def log_events_def set_conn_def Let_def)
  with k ch show ?thesis by auto
qed

subsection \<open>The loop\<close>

lemma same_connection: "connection m = Some c \<Longrightarrow> m\<lparr>connection := Some c\<rparr> = m"
  by (cases m) simp

lemma loop_done:
  "length data_list \<le> i \<Longrightarrow>
   insert_batch_loop d table_name data_list b i m n = (m, Inr n)"
  by (subst insert_batch_loop.simps) simp

lemma loop_step:
  assumes "i < length data_list" "0 < b"
    and "insert_chunk d table_name m (take b (drop i data_list)) = (m1, Inr k)"
  shows "insert_batch_loop d table_name data_list b i m n =
           insert_batch_loop d table_name data_list b (i + b) m1 (n + k)"
  using assms by (subst insert_batch_loop.simps) simp

lemma loop_stop:
  assumes "i < length data_list" "0 < b"
    and "insert_chunk d table_name m (take b (drop i data_list)) = (m1, Inl e)"
  shows "insert_batch_loop d table_name data_list b i m n = (m1, Inl e)"
  using assms by (subst insert_batch_loop.simps) simp

text \<open>
  The loop from index \<open>i\<close> on, when the chunks \<open>pre\<close> are covered and accepted: it has
  executed and committed them in order and stands at index \<open>i + length (concat pre)\<close>.
\<close>

lemma loop_prefix:
  assumes "0 < b" "connection m = Some c" "\<not> closed c"
    and "\<forall>h q vs. \<exists>cur. executemany_outcome d h q vs = Inr cur"
    and "chunks b (drop i data_list) = pre @ rest"
    and "list_all chunk_covered pre"
  shows "insert_batch_loop d table_name data_list b i m n =
           insert_batch_loop d table_name data_list b (i + length (concat pre))
             (m\<lparr>connection := Some (c\<lparr>trace := trace c @
                  concat (map (chunk_events table_name) pre)\<rparr>)\<rparr>)
             (n + length (concat pre))
         \<and> chunks b (drop (i + length (concat pre)) data_list) = rest"
  using assms(2,3,5,6)
proof (induction pre arbitrary: i m c n)
  case Nil
  then show ?case by (simp add: same_connection)
next
  case (Cons p pre)
  have i: "i < length data_list"
  proof (rule ccontr)
    assume "\<not> i < length data_list"
    then have "chunks b (drop i data_list) = []" by (simp add: chunks_Nil)
    with Cons.prems(3) show False by simp
  qed
  from chunks_drop [OF assms(1) i] Cons.prems(3)
  have p: "p = take b (drop i data_list)"
    and tl: "chunks b (drop (i + b) data_list) = pre @ rest"
    by simp_all
  have ne: "p \<noteq> []" using p i assms(1) by simp
  have len: "length p \<le> b" using p by simp
  have full: "length p = b \<or> length data_list \<le> i + b" using p by auto
  let ?c1 = "c\<lparr>trace := trace c @ chunk_events table_name p\<rparr>"
  let ?m1 = "m\<lparr>connection := Some ?c1\<rparr>"
  from assms(4) obtain cur where
    "executemany_outcome d (trace c @ [CursorOpen])
       (insert_sql table_name (keys (hd p))) (map (project (keys (hd p))) p) = Inr cur"
    by blast
  from insert_chunk_accepted [OF Cons.prems(1,2) ne _ this] Cons.prems(4)
  have chunk: "insert_chunk d table_name m (take b (drop i data_list)) = (?m1, Inr (length p))"
    using p by simp
  have step: "insert_batch_loop d table_name data_list b i m n =
                insert_batch_loop d table_name data_list b (i + b) ?m1 (n + length p)"
    using i assms(1) chunk by (rule loop_step)
  have c1: "connection ?m1 = Some ?c1" "\<not> closed ?c1"
    using Cons.prems(2) by simp_all
  from Cons.prems(4) have cov: "list_all chunk_covered pre" by simp
  note ih = Cons.IH [OF c1 tl cov, of "n + length p"]
  show ?case
  proof (cases "length p = b")
    case True
    with step ih show ?thesis by (simp add: add.assoc)
  next
    case False
    with full have past: "length data_list \<le> i + b" by simp
    then have "chunks b (drop (i + b) data_list) = []" by (simp add: chunks_Nil)
    with tl have e: "pre = []" "rest = []" by simp_all
    have "chunks b (drop (i + length p) data_list) = []"
      using p past by (simp add: chunks_Nil)
    moreover have "insert_batch_loop d table_name data_list b (i + b) ?m1 (n + length p)
                     = (?m1, Inr (n + length p))"
      using past by (rule loop_done)
    moreover have "insert_batch_loop d table_name data_list b (i + length p) ?m1 (n + length p)
                     = (?m1, Inr (n + length p))"
      using p past by (intro loop_done) simp
    ultimately show ?thesis using step e by simp
  qed
qed


lemma insert_batch_all_covered:
  assumes "connection m = Some c" "\<not> closed c"
    and "0 < b" "(case batch_size of None \<Rightarrow> max_batch_size | Some n \<Rightarrow> n) = int b"
    and "\<forall>h q vs. \<exists>cur. executemany_outcome d h q vs = Inr cur"
    and "data_list \<noteq> []" "list_all chunk_covered (chunks b data_list)"
  shows "insert_batch max_batch_size d m table_name data_list batch_size =
           (m\<lparr>connection := Some (c\<lparr>trace := trace c @
                concat (map (chunk_events table_name) (chunks b data_list))\<rparr>)\<rparr>,
            Inr (length data_list))"
proof -
  let ?m1 = "m\<lparr>connection := Some (c\<lparr>trace := trace c @
                concat (map (chunk_events table_name) (chunks b data_list))\<rparr>)\<rparr>"
  have "chunks b (drop 0 data_list) = chunks b data_list @ []" by simp
  from loop_prefix [OF assms(3,1,2,5) this assms(7), of table_name 0]
  have "insert_batch_loop d table_name data_list b 0 m 0 =
          insert_batch_loop d table_name data_list b (length data_list) ?m1 (length data_list)"
    using assms(3) by (simp add: concat_chunks)
  also have "\<dots> = (?m1, Inr (length data_list))"
    by (rule loop_done) simp
  finally show ?thesis
    using assms(3,4,6) by (simp add: insert_batch_def)
qed

lemma insert_batch_first_uncovered:
  assumes "connection m = Some c" "\<not> closed c"
    and "0 < b" "(case batch_size of None \<Rightarrow> max_batch_size | Some n \<Rightarrow> n) = int b"
    and "\<forall>h q vs. \<exists>cur. executemany_outcome d h q vs = Inr cur"
    and "data_list \<noteq> []"
    and "chunks b data_list = pre @ bad # post" "list_all chunk_covered pre"
      "\<not> chunk_covered bad"
  shows "\<exists>k\<in>set (keys (hd bad)). (\<exists>row\<in>set bad. k \<notin> set (keys row))
           \<and> insert_batch max_batch_size d m table_name data_list batch_size =
             (m\<lparr>connection := Some (c\<lparr>trace := trace c @
                  concat (map (chunk_events table_name) pre) @ [CursorOpen]\<rparr>)\<rparr>,
              Inl (KeyError k))"
proof -
  let ?i = "length (concat pre)"
  let ?c1 = "c\<lparr>trace := trace c @ concat (map (chunk_events table_name) pre)\<rparr>"
  let ?m1 = "m\<lparr>connection := Some ?c1\<rparr>"
  have "chunks b (drop 0 data_list) = pre @ bad # post" using assms(7) by simp
  from loop_prefix [OF assms(3,1,2,5) this assms(8), of table_name 0]
  have loop: "insert_batch_loop d table_name data_list b 0 m 0 =
                insert_batch_loop d table_name data_list b ?i ?m1 ?i"
    and rest: "chunks b (drop ?i data_list) = bad # post"
    by simp_all
  have i: "?i < length data_list"
  proof (rule ccontr)
    assume "\<not> ?i < length data_list"
    then have "chunks b (drop ?i data_list) = []" by (simp add: chunks_Nil)
    with rest show False by simp
  qed
  from chunks_drop [OF assms(3) i] rest have bad: "bad = take b (drop ?i data_list)" by simp
  have ne: "bad \<noteq> []" using bad i assms(3) by simp
  have c1: "connection ?m1 = Some ?c1" "\<not> closed ?c1" using assms(2) by simp_all
  from insert_chunk_missing_key [OF c1 ne assms(9), of d table_name]
  obtain k where k: "k \<in> set (keys (hd bad))" "\<exists>row\<in>set bad. k \<notin> set (keys row)"
    and chunk: "insert_chunk d table_name ?m1 bad =
                 (?m1\<lparr>connection := Some (?c1\<lparr>trace := trace ?c1 @ [CursorOpen]\<rparr>)\<rparr>,
                  Inl (KeyError k))"
    by blast
  have "insert_batch_loop d table_name data_list b ?i ?m1 ?i =
          (?m1\<lparr>connection := Some (?c1\<lparr>trace := trace ?c1 @ [CursorOpen]\<rparr>)\<rparr>,
           Inl (KeyError k))"
    using i assms(3) chunk unfolding bad by (rule loop_stop)
  with loop have "insert_batch max_batch_size d m table_name data_list batch_size =
             (m\<lparr>connection := Some (c\<lparr>trace := trace c @
                  concat (map (chunk_events table_name) pre) @ [CursorOpen]\<rparr>)\<rparr>,
              Inl (KeyError k))"
    using assms(3,4,6) by (simp add: insert_batch_def)
  with k show ?thesis by blast
qed

lemma executions_of_chunks:
  "length (filter is_execution (concat (map (chunk_events table_name) cs))) = length cs"
  by (induction cs) (simp_all add: chunk_events_def is_execution_def)

lemma commits_of_chunks:
  "length (filter (\<lambda>e. e = Commit) (concat (map (chunk_events table_name) cs))) = length cs"
  by (induction cs) (simp_all add: chunk_events_def)

lemma uniform_chunks_covered:
  assumes "0 < b" "\<forall>row\<in>set data_list. set (keys row) = set (keys (hd data_list))"
  shows "list_all chunk_covered (chunks b data_list)"
proof -
  have "chunk_covered ch" if ch: "ch \<in> set (chunks b data_list)" for ch
  proof -
    have sub: "set ch \<subseteq> set data_list"
    proof -
      have "set ch \<subseteq> set (concat (chunks b data_list))" using ch by auto
      then show ?thesis using assms(1) by (simp add: concat_chunks)
    qed
    have "ch \<noteq> []" using chunks_sizes [OF assms(1) ch] by simp
    then have "hd ch \<in> set data_list" using sub by auto
    with assms(2) sub have "\<forall>row\<in>set ch. set (keys (hd ch)) = set (keys row)" by blast
    then show ?thesis by (auto simp add: chunk_covered_def list_all_iff)
  qed
  then show ?thesis by (simp add: list_all_iff)
qed

text \<open>
  Claim C3. An empty list is answered with 0 and nothing happens on the connection. For a
  non-empty list of rows with the same key set, a positive batch size \<open>b\<close> (given, or
  \<^verbatim>\<open>MAX_BATCH_SIZE\<close>), an open connection and a database that accepts every batch,
  \<^verbatim>\<open>insert_batch\<close> returns the length of the list; on the connection it has made, for each
  of the consecutive chunks of \<open>b\<close> rows in order, one execution call followed by a
  commit. The chunks concatenate to the input, each has at most \<open>b\<close> rows and all but the
  last exactly \<open>b\<close>, and there are \<open>\<lceil>n / b\<rceil>\<close> of them, as many as execution calls and
  commits.
\<close>

theorem insert_batch_chunks:
  assumes "connection m = Some c" "\<not> closed c"
    and "0 < b" "(case batch_size of None \<Rightarrow> max_batch_size | Some n \<Rightarrow> n) = int b"
    and "\<forall>h q vs. \<exists>cur. executemany_outcome d h q vs = Inr cur"
    and "data_list \<noteq> []" "\<forall>row\<in>set data_list. set (keys row) = set (keys (hd data_list))"
  shows "insert_batch max_batch_size d m' table_name [] batch_size' = (m', Inr 0)
       \<and> insert_batch max_batch_size d m table_name data_list batch_size =
           (m\<lparr>connection := Some (c\<lparr>trace := trace c @
                concat (map (chunk_events table_name) (chunks b data_list))\<rparr>)\<rparr>,
            Inr (length data_list))
       \<and> concat (chunks b data_list) = data_list
       \<and> list_all (\<lambda>chunk. chunk \<noteq> [] \<and> length chunk \<le> b) (chunks b data_list)
       \<and> list_all (\<lambda>chunk. length chunk = b) (butlast (chunks b data_list))
       \<and> length (chunks b data_list) = (length data_list + b - 1) div b
       \<and> length (filter is_execution
            (concat (map (chunk_events table_name) (chunks b data_list))))
           = (length data_list + b - 1) div b
       \<and> length (filter (\<lambda>e. e = Commit)
            (concat (map (chunk_events table_name) (chunks b data_list))))
           = (length data_list + b - 1) div b"
proof -
  have empty: "insert_batch max_batch_size d m' table_name [] batch_size' = (m', Inr 0)"
    by (simp add: insert_batch_def)
  have covered: "list_all chunk_covered (chunks b data_list)"
    using assms(3,7) by (rule uniform_chunks_covered)
  note run = insert_batch_all_covered [OF assms(1-6) covered, of table_name]
  have sizes: "list_all (\<lambda>chunk. chunk \<noteq> [] \<and> length chunk \<le> b) (chunks b data_list)"
    unfolding list_all_iff using chunks_sizes [OF assms(3)] by blast
  have full: "list_all (\<lambda>chunk. length chunk = b) (butlast (chunks b data_list))"
    unfolding list_all_iff using chunks_full [OF assms(3)] by blast
  from empty run sizes full show ?thesis
    using assms(3)
    by (simp add: concat_chunks length_chunks executions_of_chunks commits_of_chunks)
qed


lemma example_rows_chunks:
  "chunks 2 example_rows =
     [[[(''name'', VStr ''John''), (''email'', VStr ''john@example.com'')],
       [(''email'', VStr ''jane@example.com''), (''name'', VStr ''Jane'')]],
      [[(''name'', VStr ''Joe''), (''email'', VStr ''joe@example.com'')]]]"
  by (simp add: example_rows_def chunks_step chunks_Nil)

theorem insert_batch_chunks_witness:
  "insert_batch 1000 example_driver fresh ''users'' [] None = (fresh, Inr 0)
   \<and> insert_batch 1000 example_driver connected ''users'' example_rows (Some 2) =
       (\<lparr>config = [], connection = Some \<lparr>closed = False, trace =
          [CursorOpen,
           ExecuteMany ''INSERT INTO users (name, email) VALUES (%s, %s)''
             [[VStr ''John'', VStr ''john@example.com''],
              [VStr ''Jane'', VStr ''jane@example.com'']],
           Commit, CursorClose,
           CursorOpen,
           ExecuteMany ''INSERT INTO users (name, email) VALUES (%s, %s)''
             [[VStr ''Joe'', VStr ''joe@example.com'']],
           Commit, CursorClose]\<rparr>\<rparr>,
        Inr 3)
   \<and> length (chunks 2 example_rows) = (3 + 2 - 1) div 2"
proof -
  let ?c = "\<lparr>closed = False, trace = []\<rparr>"
  have conn: "connection connected = Some ?c" "\<not> closed ?c"
    by (simp_all add: connected_def)
  have size: "(0::nat) < 2"
    "(case Some 2 of None \<Rightarrow> 1000 | Some n \<Rightarrow> n) = int 2"
    by simp_all
  have accepted: "\<forall>h q vs. \<exists>cur. executemany_outcome example_driver h q vs = Inr cur"
    by (simp add: example_driver_def)
  have rows: "example_rows \<noteq> []"
    "\<forall>row\<in>set example_rows. set (keys row) = set (keys (hd example_rows))"
    by (auto simp add: example_rows_def keys_def)
  have len: "length example_rows = 3" by (simp add: example_rows_def)
  from insert_batch_chunks
    [where max_batch_size = 1000 and m' = fresh and table_name = "''users''"
       and batch_size' = None, OF conn size accepted rows]
  show ?thesis
    unfolding example_rows_chunks len
    by (simp add: chunk_events_def insert_sql_def keys_def project_def connected_def)
qed

subsection \<open>Columns chunk by chunk\<close>

text \<open>
  Claim C10. For a non-empty input (on an open connection, with a positive batch size
  and a database that accepts every batch), the statement of each chunk is built from
  the keys of that chunk's own first row, and the values sent are the rows reduced to
  these keys: when every row of every chunk has the keys of its chunk's first row, all
  chunks are inserted, keys beyond those being ignored. At the first chunk with a row
  that lacks one of the keys of the chunk's first row, the call raises \<^verbatim>\<open>KeyError\<close> for
  such a key that the row lacks; the chunks before have been executed and committed, and for the failing
  chunk a cursor has been opened but nothing executed.
\<close>

theorem insert_batch_columns_per_chunk:
  assumes "connection m = Some c" "\<not> closed c"
    and "0 < b" "(case batch_size of None \<Rightarrow> max_batch_size | Some n \<Rightarrow> n) = int b"
    and "\<forall>h q vs. \<exists>cur. executemany_outcome d h q vs = Inr cur"
    and "data_list \<noteq> []"
  shows "(list_all chunk_covered (chunks b data_list) \<longrightarrow>
            insert_batch max_batch_size d m table_name data_list batch_size =
              (m\<lparr>connection := Some (c\<lparr>trace := trace c @
                   concat (map (chunk_events table_name) (chunks b data_list))\<rparr>)\<rparr>,
               Inr (length data_list)))
       \<and> (\<forall>pre bad post.
            chunks b data_list = pre @ bad # post \<and> list_all chunk_covered pre
              \<and> \<not> chunk_covered bad \<longrightarrow>
            (\<exists>k\<in>set (keys (hd bad)). (\<exists>row\<in>set bad. k \<notin> set (keys row)) \<and>
               insert_batch max_batch_size d m table_name data_list batch_size =
                 (m\<lparr>connection := Some (c\<lparr>trace := trace c @
                      concat (map (chunk_events table_name) pre) @ [CursorOpen]\<rparr>)\<rparr>,
                  Inl (KeyError k))))
       \<and> (\<forall>columns row row'.
            (\<forall>k\<in>set columns. map_of row k = map_of row' k) \<longrightarrow>
            project columns row = project columns row')"
proof (intro conjI impI allI)
  assume "list_all chunk_covered (chunks b data_list)"
  with assms show "insert_batch max_batch_size d m table_name data_list batch_size =
              (m\<lparr>connection := Some (c\<lparr>trace := trace c @
                   concat (map (chunk_events table_name) (chunks b data_list))\<rparr>)\<rparr>,
               Inr (length data_list))"
    by (rule insert_batch_all_covered)
next
  fix pre bad post
  assume "chunks b data_list = pre @ bad # post \<and> list_all chunk_covered pre
              \<and> \<not> chunk_covered bad"
  then have "chunks b data_list = pre @ bad # post" "list_all chunk_covered pre"
    "\<not> chunk_covered bad" by simp_all
  with assms show "\<exists>k\<in>set (keys (hd bad)). (\<exists>row\<in>set bad. k \<notin> set (keys row)) \<and>
               insert_batch max_batch_size d m table_name data_list batch_size =
                 (m\<lparr>connection := Some (c\<lparr>trace := trace c @
                      concat (map (chunk_events table_name) pre) @ [CursorOpen]\<rparr>)\<rparr>,
                  Inl (KeyError k))"
    by (rule insert_batch_first_uncovered)
next
  fix columns :: "string list" and row row' :: "pyval dict"
  assume "\<forall>k\<in>set columns. map_of row k = map_of row' k"
  then show "project columns row = project columns row'"
    by (rule project_ignores_other_keys)
qed

lemma example_chunks:
  "chunks 1 rows_changing_keys = [[[(''a'', VInt 1)]], [[(''b'', VInt 2), (''c'', VInt 3)]]]"
  "chunks 2 rows_missing_key = [[[(''a'', VInt 1), (''b'', VInt 2)], [(''a'', VInt 3)]]]"
  "chunks 2 rows_extra_key = [[[(''a'', VInt 1)], [(''z'', VInt 9), (''a'', VInt 2)]]]"
  "chunks (Suc 0) rows_changing_keys
     = [[[(''a'', VInt 1)]], [[(''b'', VInt 2), (''c'', VInt 3)]]]"
  "length rows_changing_keys = 2" "length rows_extra_key = 2"
  by (simp_all add: rows_changing_keys_def rows_missing_key_def rows_extra_key_def
      chunks_step chunks_Nil)

theorem insert_batch_columns_per_chunk_witness:
  "insert_batch 1000 example_driver connected ''t'' rows_changing_keys (Some 1) =
       (\<lparr>config = [], connection = Some \<lparr>closed = False, trace =
          [CursorOpen, ExecuteMany ''INSERT INTO t (a) VALUES (%s)'' [[VInt 1]],
           Commit, CursorClose,
           CursorOpen, ExecuteMany ''INSERT INTO t (b, c) VALUES (%s, %s)'' [[VInt 2, VInt 3]],
           Commit, CursorClose]\<rparr>\<rparr>,
        Inr 2)
   \<and> insert_batch 1000 example_driver connected ''t'' rows_extra_key (Some 2) =
       (\<lparr>config = [], connection = Some \<lparr>closed = False, trace =
          [CursorOpen, ExecuteMany ''INSERT INTO t (a) VALUES (%s)'' [[VInt 1], [VInt 2]],
           Commit, CursorClose]\<rparr>\<rparr>,
        Inr 2)
   \<and> insert_batch 1000 example_driver connected ''t'' rows_missing_key (Some 2) =
       (\<lparr>config = [], connection = Some \<lparr>closed = False, trace = [CursorOpen]\<rparr>\<rparr>,
        Inl (KeyError ''b''))"
proof -
  let ?c = "\<lparr>closed = False, trace = []\<rparr>"
  have conn: "connection connected = Some ?c" "\<not> closed ?c"
    by (simp_all add: connected_def)
  have one: "(0::nat) < 1" "(case Some 1 of None \<Rightarrow> 1000 | Some n \<Rightarrow> n) = int 1"
    and two: "(0::nat) < 2" "(case Some 2 of None \<Rightarrow> 1000 | Some n \<Rightarrow> n) = int 2"
    by simp_all
  have accepted: "\<forall>h q vs. \<exists>cur. executemany_outcome example_driver h q vs = Inr cur"
    by (simp add: example_driver_def)
  have ne: "rows_changing_keys \<noteq> []" "rows_extra_key \<noteq> []" "rows_missing_key \<noteq> []"
    by (simp_all add: rows_changing_keys_def rows_missing_key_def rows_extra_key_def)
  note changing = insert_batch_columns_per_chunk
    [where max_batch_size = 1000 and table_name = "''t''", OF conn one accepted ne(1),
     THEN conjunct1, rule_format]
  note extra = insert_batch_columns_per_chunk
    [where max_batch_size = 1000 and table_name = "''t''", OF conn two accepted ne(2),
     THEN conjunct1, rule_format]
  note missing = insert_batch_columns_per_chunk
    [where max_batch_size = 1000 and table_name = "''t''", OF conn two accepted ne(3),
     THEN conjunct2, THEN conjunct1, rule_format,
     where pre = "[]" and bad = "[[(''a'', VInt 1), (''b'', VInt 2)], [(''a'', VInt 3)]]"
       and post = "[]"]
  have a: "insert_batch 1000 example_driver connected ''t'' rows_changing_keys (Some 1) =
       (\<lparr>config = [], connection = Some \<lparr>closed = False, trace =
          [CursorOpen, ExecuteMany ''INSERT INTO t (a) VALUES (%s)'' [[VInt 1]],
           Commit, CursorClose,
           CursorOpen, ExecuteMany ''INSERT INTO t (b, c) VALUES (%s, %s)'' [[VInt 2, VInt 3]],
           Commit, CursorClose]\<rparr>\<rparr>,
        Inr 2)"
    using changing
    by (simp add: example_chunks chunk_covered_def keys_def chunk_events_def insert_sql_def
        project_def connected_def)
  have b: "insert_batch 1000 example_driver connected ''t'' rows_extra_key (Some 2) =
       (\<lparr>config = [], connection = Some \<lparr>closed = False, trace =
          [CursorOpen, ExecuteMany ''INSERT INTO t (a) VALUES (%s)'' [[VInt 1], [VInt 2]],
           Commit, CursorClose]\<rparr>\<rparr>,
        Inr 2)"
    using extra
    by (simp add: example_chunks chunk_covered_def keys_def chunk_events_def insert_sql_def
        project_def connected_def)
  have c: "insert_batch 1000 example_driver connected ''t'' rows_missing_key (Some 2) =
       (\<lparr>config = [], connection = Some \<lparr>closed = False, trace = [CursorOpen]\<rparr>\<rparr>,
        Inl (KeyError ''b''))"
    using missing
    by (auto simp add: example_chunks chunk_covered_def keys_def connected_def
        insert_batch_def)
  from a b c show ?thesis by simp
qed


text \<open>A batch size of zero makes \<^verbatim>\<open>range\<close> raise; with a negative one the loop does not
  run and the call returns 0.\<close>

lemma insert_batch_size_not_positive:
  "data_list \<noteq> [] \<Longrightarrow>
   insert_batch max_batch_size d m table_name data_list (Some 0)
     = (m, Inl (ValueError ''range() arg 3 must not be zero''))"
  "data_list \<noteq> [] \<Longrightarrow> n < 0 \<Longrightarrow>
   insert_batch max_batch_size d m table_name data_list (Some n) = (m, Inr 0)"
  by (simp_all add: insert_batch_def)

end
